theory Spec2Isabelle
  imports Main "HOL-Library.AList" "HOL-Library.Multiset"
begin

section \<open>Upstream data read by the analysis handler\<close>

text \<open>
  The handler of \<^verbatim>\<open>GET /api/analyze-manager/:managerId\<close> in \<^verbatim>\<open>src/server.js\<close> reads JSON
  documents of the statistics provider. Only the fields the handler touches are kept.
  Record fields live in one name space, so the fields of the upstream documents carry a
  short prefix; the accumulated \<^verbatim>\<open>PlayerStat\<close> keeps the source's field names.
  JavaScript numbers are modelled as \<open>int\<close> (scores, which may be negative) and \<open>nat\<close>
  (identifiers, squad positions, gameweeks, ranks): the provider sends integers far
  below \<open>2^53\<close>, where double arithmetic is exact.
\<close>

record team =
  team_name :: string

record element =
  el_id :: nat
  el_web_name :: string
  el_team :: nat
  el_element_type :: nat

record event =
  ev_id :: nat
  ev_is_current :: bool

record bootstrap =
  elements :: "element list"
  teams :: "team list"
  events :: "event list"

record manager_entry =
  player_first_name :: string
  player_last_name :: string
  entry_name :: string
  summary_overall_rank :: "nat option"
  summary_overall_points :: int

record season_record =
  h_event :: nat
  overall_rank :: "nat option"

record chip_use =
  chip_name :: string

record past_season =
  past_rank :: nat

record manager_history =
  current :: "season_record list"
  chips :: "chip_use list"
  past :: "past_season list"

record league =
  standings_results :: "int list"

record pick =
  pick_element :: nat
  pick_position :: nat
  is_captain :: bool

record picks_data =
  picks :: "pick list"
  active_chip :: "string option"

record round_history =
  h_round :: nat
  total_points :: int

record element_summary =
  history :: "round_history list"

text \<open>
  Every \<^verbatim>\<open>axios.get\<close> is a request to the provider. A request that is rejected (network
  error, timeout, status outside 2xx) is \<open>None\<close>; the handler's \<^verbatim>\<open>try/catch\<close> turns it
  into HTTP 500. The provider is taken to answer one request the same way during one
  analysis run.
\<close>

datatype request =
    GetBootstrapStatic
  | GetEntry string
  | GetEntryHistory string
  | GetStandings
  | GetPicks string nat
  | GetElementSummary nat

record upstream =
  get_bootstrap_static :: "bootstrap option"
  get_entry :: "string \<Rightarrow> manager_entry option"
  get_entry_history :: "string \<Rightarrow> manager_history option"
  get_standings :: "league option"
  get_picks :: "string \<Rightarrow> nat \<Rightarrow> picks_data option"
  get_element_summary :: "nat \<Rightarrow> element_summary option"

section \<open>Accumulated state of one analysis run\<close>

datatype position_code = GKP | DEF | MID | FWD

record player_stat =
  name :: string
  team :: string
  position :: "position_code option"
  totalPointsActive :: int
  gwInSquad :: nat
  starts :: nat
  cappedPoints :: int
  playerPoints :: int

record position_entry =
  pe_name :: string
  points :: int

text \<open>\<^verbatim>\<open>Infinity\<close> is the start value of two of the running minima.\<close>

datatype 'a jsnum = Infinity | Num 'a

text \<open>
  The local variables of the handler. \<open>playerStats\<close> and the four objects of
  \<open>positionPoints\<close> are JavaScript objects keyed by player id: an association list in
  insertion order, a new key appended at the end. The season-wide counter
  \<^verbatim>\<open>totalPointsActive\<close> is named \<open>totalPointsActiveAll\<close> here, the plain name being
  the field of \<open>player_stat\<close>. \<open>calls\<close> lists the upstream requests issued so far.
\<close>

record analysis_state =
  totalCaptaincyPoints :: int
  totalPointsActiveAll :: int
  totalPointsLostOnBench :: int
  playerStats :: "(nat \<times> player_stat) list"
  positionPoints :: "position_code \<Rightarrow> (nat \<times> position_entry) list"
  weeklyPoints :: "int list"
  weeklyRanks :: "nat list"
  highestPoints :: int
  highestPointsGW :: nat
  lowestPoints :: "int jsnum"
  lowestPointsGW :: nat
  highestRank :: "nat jsnum"
  highestRankGW :: nat
  lowestRank :: nat
  lowestRankGW :: nat
  calls :: "request list"

text \<open>An exception caught by the handler's \<^verbatim>\<open>catch\<close>; it keeps the requests issued before it.\<close>

datatype error = Thrown "request list"

definition init_state :: "nat \<Rightarrow> request list \<Rightarrow> analysis_state" where
  "init_state currentGameweek issued =
     \<lparr> totalCaptaincyPoints = 0, totalPointsActiveAll = 0, totalPointsLostOnBench = 0,
       playerStats = [], positionPoints = (\<lambda>_. []),
       weeklyPoints = replicate currentGameweek 0,
       weeklyRanks = replicate currentGameweek 0,
       highestPoints = 0, highestPointsGW = 0,
       lowestPoints = Infinity, lowestPointsGW = 0,
       highestRank = Infinity, highestRankGW = 0,
       lowestRank = 0, lowestRankGW = 0,
       calls = issued \<rparr>"

section \<open>One pick\<close>

text \<open>
  \<^verbatim>\<open>playerHistory.find(history => history.round === gw)\<close>, then
  \<^verbatim>\<open>gameweekHistory ? gameweekHistory.total_points : 0\<close>.
\<close>

definition pointsThisWeek :: "round_history list \<Rightarrow> nat \<Rightarrow> int" where
  "pointsThisWeek playerHistory gw =
     (case find (\<lambda>h. h_round h = gw) playerHistory of
        None \<Rightarrow> 0
      | Some gameweekHistory \<Rightarrow> total_points gameweekHistory)"

text \<open>
  \<^verbatim>\<open>["GKP", "DEF", "MID", "FWD"][player.element_type - 1]\<close>: outside \<open>1..4\<close> the read is
  \<^verbatim>\<open>undefined\<close>, here \<open>None\<close>.
\<close>

definition position_of :: "nat \<Rightarrow> position_code option" where
  "position_of element_type =
     (if 1 \<le> element_type \<and> element_type \<le> 4
      then Some ([GKP, DEF, MID, FWD] ! (element_type - 1)) else None)"

text \<open>
  The object literal stored on a player's first appearance.
  \<^verbatim>\<open>playerData.teams[player.team - 1].name\<close> throws a TypeError when the index is out of
  range; that is \<open>None\<close> here.
\<close>

definition new_player_stat :: "bootstrap \<Rightarrow> element \<Rightarrow> player_stat option" where
  "new_player_stat playerData player =
     (if 1 \<le> el_team player \<and> el_team player \<le> length (teams playerData)
      then Some \<lparr> name = el_web_name player,
                  team = team_name (teams playerData ! (el_team player - 1)),
                  position = position_of (el_element_type player),
                  totalPointsActive = 0, gwInSquad = 0, starts = 0,
                  cappedPoints = 0, playerPoints = 0 \<rparr>
      else None)"

text \<open>
  \<^verbatim>\<open>if (!playerStats[playerId]) { playerStats[playerId] = {...} }\<close>: an object is truthy,
  so the test is whether the key is present. A new key goes to the end.
\<close>

definition ensure_stat ::
  "bootstrap \<Rightarrow> element \<Rightarrow> nat \<Rightarrow> (nat \<times> player_stat) list \<Rightarrow> (nat \<times> player_stat) list option" where
  "ensure_stat playerData player playerId stats =
     (if map_of stats playerId = None
      then map_option (\<lambda>s. stats @ [(playerId, s)]) (new_player_stat playerData player)
      else Some stats)"

text \<open>\<^verbatim>\<open>activePoints = pointsThisWeek; if (isCaptain) activePoints *= isTripleCaptain ? 3 : 2\<close>.\<close>

definition activePoints :: "bool \<Rightarrow> bool \<Rightarrow> int \<Rightarrow> int" where
  "activePoints isCaptain isTripleCaptain p =
     (if isCaptain then p * (if isTripleCaptain then 3 else 2) else p)"

text \<open>
  The branch \<^verbatim>\<open>if (inStarting11 || isBenchBoost) { ... }\<close> for a player whose stat exists.
  \<^verbatim>\<open>positionPoints[position][playerId]\<close> throws a TypeError when \<open>position\<close> is
  \<^verbatim>\<open>undefined\<close>.
\<close>

definition credit_active ::
  "bool \<Rightarrow> bool \<Rightarrow> bool \<Rightarrow> nat \<Rightarrow> int \<Rightarrow> int \<times> analysis_state \<Rightarrow> error + int \<times> analysis_state" where
  "credit_active inStarting11 isCaptain isTripleCaptain playerId p acc =
     (let gwPoints = fst acc; st = snd acc;
          a = activePoints isCaptain isTripleCaptain p;
          st1 = (if isCaptain
                 then st\<lparr> totalCaptaincyPoints := totalCaptaincyPoints st + a,
                          playerStats := AList.map_entry playerId
                            (\<lambda>s. s\<lparr>cappedPoints := cappedPoints s + a\<rparr>) (playerStats st) \<rparr>
                 else st);
          st2 = st1\<lparr> playerStats := AList.map_entry playerId
                        (\<lambda>s. s\<lparr>totalPointsActive := totalPointsActive s + a\<rparr>) (playerStats st1),
                      totalPointsActiveAll := totalPointsActiveAll st1 + a \<rparr>;
          gwPoints' = gwPoints + a
      in case map_of (playerStats st2) playerId of
           None \<Rightarrow> Inl (Thrown (calls st2))
         | Some stat \<Rightarrow>
            (case position stat of
               None \<Rightarrow> Inl (Thrown (calls st2))
             | Some pos \<Rightarrow>
                (let players = positionPoints st2 pos;
                     players1 = (if map_of players playerId = None
                                 then players @ [(playerId, \<lparr>pe_name = name stat, points = 0\<rparr>)]
                                 else players);
                     players2 = AList.map_entry playerId (\<lambda>e. e\<lparr>points := points e + a\<rparr>) players1;
                     st3 = st2\<lparr> positionPoints := (positionPoints st2)(pos := players2) \<rparr>;
                     st4 = (if inStarting11
                            then st3\<lparr> playerStats := AList.map_entry playerId
                                     (\<lambda>s. s\<lparr>starts := starts s + 1\<rparr>) (playerStats st3) \<rparr>
                            else st3);
                     st5 = st4\<lparr> playerStats := AList.map_entry playerId
                                 (\<lambda>s. s\<lparr>gwInSquad := gwInSquad s + 1\<rparr>) (playerStats st4) \<rparr>
                 in Inr (gwPoints', st5))))"

text \<open>
  The body of \<^verbatim>\<open>for (const pick of managerPicks)\<close>. \<open>acc\<close> is the pair of the week's
  running total \<^verbatim>\<open>gwPoints\<close> and the handler's variables.
\<close>

definition process_pick ::
  "upstream \<Rightarrow> bootstrap \<Rightarrow> nat \<Rightarrow> bool \<Rightarrow> bool \<Rightarrow> pick \<Rightarrow> int \<times> analysis_state
     \<Rightarrow> error + int \<times> analysis_state" where
  "process_pick w playerData gw isBenchBoost isTripleCaptain pk acc =
     (let gwPoints = fst acc; st = snd acc; playerId = pick_element pk
      in case find (\<lambda>p. el_id p = playerId) (elements playerData) of
           None \<Rightarrow> Inr acc
         | Some player \<Rightarrow>
            (let st1 = st\<lparr> calls := calls st @ [GetElementSummary playerId] \<rparr>
             in case get_element_summary w playerId of
                  None \<Rightarrow> Inl (Thrown (calls st1))
                | Some summary \<Rightarrow>
                   (let p = pointsThisWeek (history summary) gw;
                        created = ensure_stat playerData player playerId (playerStats st1)
                    in case created of
                         None \<Rightarrow> Inl (Thrown (calls st1))
                       | Some stats \<Rightarrow>
                          (let inStarting11 = (pick_position pk \<le> 11);
                               isCaptain = is_captain pk;
                               st2 = st1\<lparr> playerStats := AList.map_entry playerId
                                          (\<lambda>s. s\<lparr>playerPoints := playerPoints s + p\<rparr>) stats \<rparr>
                           in if inStarting11 \<or> isBenchBoost
                              then credit_active inStarting11 isCaptain isTripleCaptain playerId p
                                     (gwPoints, st2)
                              else Inr (gwPoints,
                                     st2\<lparr> totalPointsLostOnBench := totalPointsLostOnBench st2 + p \<rparr>)))))"

fun process_picks ::
  "upstream \<Rightarrow> bootstrap \<Rightarrow> nat \<Rightarrow> bool \<Rightarrow> bool \<Rightarrow> pick list \<Rightarrow> int \<times> analysis_state
     \<Rightarrow> error + int \<times> analysis_state" where
  "process_picks w playerData gw isBenchBoost isTripleCaptain [] acc = Inr acc"
| "process_picks w playerData gw isBenchBoost isTripleCaptain (pk # rest) acc =
     (case process_pick w playerData gw isBenchBoost isTripleCaptain pk acc of
        Inl e \<Rightarrow> Inl e
      | Inr acc' \<Rightarrow> process_picks w playerData gw isBenchBoost isTripleCaptain rest acc')"

section \<open>One gameweek\<close>

text \<open>\<^verbatim>\<open>historyData.current.find(h => h.event === gw)?.overall_rank || 0\<close>.\<close>

definition season_record_of :: "manager_history \<Rightarrow> nat \<Rightarrow> season_record option" where
  "season_record_of historyData gw = find (\<lambda>h. h_event h = gw) (current historyData)"

definition gwRank_of :: "manager_history \<Rightarrow> nat \<Rightarrow> nat" where
  "gwRank_of historyData gw =
     (case season_record_of historyData gw of
        None \<Rightarrow> 0
      | Some h \<Rightarrow> (case overall_rank h of None \<Rightarrow> 0 | Some r \<Rightarrow> r))"

text \<open>\<open>x < y\<close> for a running minimum \<open>y\<close> that may still be \<^verbatim>\<open>Infinity\<close>.\<close>

fun lt_jsnum :: "'a::linorder \<Rightarrow> 'a jsnum \<Rightarrow> bool" where
  "lt_jsnum x Infinity = True"
| "lt_jsnum x (Num y) = (x < y)"

text \<open>The four \<^verbatim>\<open>if\<close> statements under "Update highest/lowest tracking", in order.\<close>

definition track_extrema :: "nat \<Rightarrow> int \<Rightarrow> nat \<Rightarrow> analysis_state \<Rightarrow> analysis_state" where
  "track_extrema gw gwPoints gwRank st =
     (let st1 = (if gwPoints > highestPoints st
                 then st\<lparr> highestPoints := gwPoints, highestPointsGW := gw \<rparr> else st);
          st2 = (if lt_jsnum gwPoints (lowestPoints st1)
                 then st1\<lparr> lowestPoints := Num gwPoints, lowestPointsGW := gw \<rparr> else st1);
          st3 = (if lt_jsnum gwRank (highestRank st2)
                 then st2\<lparr> highestRank := Num gwRank, highestRankGW := gw \<rparr> else st2);
          st4 = (if gwRank > lowestRank st3
                 then st3\<lparr> lowestRank := gwRank, lowestRankGW := gw \<rparr> else st3)
      in st4)"

text \<open>
  The body of \<^verbatim>\<open>for (let gw = 1; gw <= currentGameweek; gw++)\<close>. The two arrays have
  length \<open>currentGameweek\<close>, so the writes at \<open>gw - 1\<close> are in range.
\<close>

definition process_gameweek ::
  "upstream \<Rightarrow> string \<Rightarrow> bootstrap \<Rightarrow> manager_history \<Rightarrow> nat \<Rightarrow> analysis_state
     \<Rightarrow> error + analysis_state" where
  "process_gameweek w managerId playerData historyData gw st =
     (let st1 = st\<lparr> calls := calls st @ [GetPicks managerId gw] \<rparr>
      in case get_picks w managerId gw of
           None \<Rightarrow> Inl (Thrown (calls st1))
         | Some managerPicksData \<Rightarrow>
            (let isBenchBoost = (active_chip managerPicksData = Some ''bboost'');
                 isTripleCaptain = (active_chip managerPicksData = Some ''3xc'')
             in case process_picks w playerData gw isBenchBoost isTripleCaptain
                       (picks managerPicksData) (0, st1) of
                  Inl e \<Rightarrow> Inl e
                | Inr acc \<Rightarrow>
                   (let gwPoints = fst acc; st2 = snd acc;
                        gwRank = gwRank_of historyData gw;
                        st3 = st2\<lparr> weeklyPoints := (weeklyPoints st2)[gw - 1 := gwPoints],
                                   weeklyRanks := (weeklyRanks st2)[gw - 1 := gwRank] \<rparr>
                    in Inr (track_extrema gw gwPoints gwRank st3))))"

function gameweek_loop ::
  "upstream \<Rightarrow> string \<Rightarrow> bootstrap \<Rightarrow> manager_history \<Rightarrow> nat \<Rightarrow> nat \<Rightarrow> analysis_state
     \<Rightarrow> error + analysis_state" where
  "gameweek_loop w managerId playerData historyData currentGameweek gw st =
     (if gw \<le> currentGameweek
      then (case process_gameweek w managerId playerData historyData gw st of
              Inl e \<Rightarrow> Inl e
            | Inr st' \<Rightarrow>
                gameweek_loop w managerId playerData historyData currentGameweek (Suc gw) st')
      else Inr st)"
  by pat_completeness auto
termination
  by (relation "measure (\<lambda>(w, managerId, playerData, historyData, currentGameweek, gw, st).
                  Suc currentGameweek - gw)") auto

declare gameweek_loop.simps [simp del]

section \<open>The report\<close>

text \<open>
  \<^verbatim>\<open>Number.prototype.toLocaleString()\<close> for a non-negative integer in the default
  \<^verbatim>\<open>en-US\<close> locale: decimal digits in groups of three separated by commas.
  \<^verbatim>\<open>Infinity\<close> prints as the infinity sign (three bytes in UTF-8).
\<close>

fun decimal :: "nat \<Rightarrow> string" where
  "decimal n =
     (if n < 10 then [''0123456789'' ! n]
      else decimal (n div 10) @ [''0123456789'' ! (n mod 10)])"

declare decimal.simps [simp del]

fun group3 :: "string \<Rightarrow> string" where
  "group3 (a # b # c # d # rest) = a # b # c # CHR '','' # group3 (d # rest)"
| "group3 ds = ds"

definition toLocaleString :: "nat \<Rightarrow> string" where
  "toLocaleString n = rev (group3 (rev (decimal n)))"

fun toLocaleString_jsnum :: "nat jsnum \<Rightarrow> string" where
  "toLocaleString_jsnum Infinity = [CHR 0xE2, CHR 0x88, CHR 0x9E]"
| "toLocaleString_jsnum (Num n) = toLocaleString n"

text \<open>\<^verbatim>\<open>Array.prototype.join(", ")\<close>.\<close>

fun join_comma :: "string list \<Rightarrow> string" where
  "join_comma [] = []"
| "join_comma [x] = x"
| "join_comma (x # y # rest) = x @ '', '' @ join_comma (y # rest)"

text \<open>
  \<^verbatim>\<open>Object.values(obj)\<close> of an object whose keys are numbers: the keys that are array
  indices (below \<open>2^32 - 1\<close>) come first, in ascending numeric order, then the other keys
  in insertion order (ECMAScript, OrdinaryOwnPropertyKeys).
\<close>

definition is_array_index :: "nat \<Rightarrow> bool" where
  "is_array_index k = (int k < 4294967295)"

definition object_values :: "(nat \<times> 'v) list \<Rightarrow> 'v list" where
  "object_values obj =
     map snd (sort_key fst (filter (\<lambda>kv. is_array_index (fst kv)) obj))
     @ map snd (filter (\<lambda>kv. \<not> is_array_index (fst kv)) obj)"

text \<open>
  \<^verbatim>\<open>xs.sort((a, b) => key(b) - key(a))\<close>: descending by \<open>key\<close>; the sort is stable
  (ECMAScript 2019), so elements with equal keys keep their order.
\<close>

definition sort_desc :: "('a \<Rightarrow> int) \<Rightarrow> 'a list \<Rightarrow> 'a list" where
  "sort_desc key xs = sort_key (\<lambda>x. - key x) xs"

record manager_info =
  mi_name :: string
  mi_teamName :: string
  mi_overallRanking :: string
  mi_managerPoints :: int
  mi_allChipsUsed :: string
  mi_lastSeasonRank :: string
  mi_seasonBeforeLastRank :: string
  mi_pointDifference :: int
  mi_totalPointsLostOnBench :: int
  mi_totalCaptaincyPoints :: int
  mi_currentGameweek :: nat
  mi_highestPoints :: int
  mi_highestPointsGW :: nat
  mi_lowestPoints :: "int jsnum"
  mi_lowestPointsGW :: nat
  mi_highestRank :: string
  mi_highestRankGW :: nat
  mi_lowestRank :: string
  mi_lowestRankGW :: nat

record position_summary =
  ps_position :: position_code
  ps_totalPoints :: int
  ps_players :: "position_entry list"

record analysis =
  an_managerInfo :: manager_info
  an_playerStats :: "player_stat list"
  an_positionSummary :: "position_summary list"
  an_weeklyPoints :: "int list"
  an_weeklyRanks :: "nat list"

definition assemble ::
  "manager_entry \<Rightarrow> manager_history \<Rightarrow> int \<Rightarrow> nat \<Rightarrow> analysis_state \<Rightarrow> analysis" where
  "assemble managerEntryData historyData topManagerPoints currentGameweek st =
     \<lparr> an_managerInfo =
         \<lparr> mi_name = player_first_name managerEntryData @ '' '' @ player_last_name managerEntryData,
           mi_teamName = entry_name managerEntryData,
           mi_overallRanking =
             (case summary_overall_rank managerEntryData of
                None \<Rightarrow> ''N/A'' | Some r \<Rightarrow> toLocaleString r),
           mi_managerPoints = summary_overall_points managerEntryData,
           mi_allChipsUsed =
             (let joined = join_comma (map chip_name (chips historyData))
              in if joined = [] then ''None'' else joined),
           mi_lastSeasonRank =
             (if length (past historyData) > 0
              then toLocaleString (past_rank (past historyData ! (length (past historyData) - 1)))
              else ''Didn't Play''),
           mi_seasonBeforeLastRank =
             (if length (past historyData) > 1
              then toLocaleString (past_rank (past historyData ! (length (past historyData) - 2)))
              else ''Didn't Play''),
           mi_pointDifference = summary_overall_points managerEntryData - topManagerPoints,
           mi_totalPointsLostOnBench = totalPointsLostOnBench st,
           mi_totalCaptaincyPoints = totalCaptaincyPoints st,
           mi_currentGameweek = currentGameweek,
           mi_highestPoints = highestPoints st,
           mi_highestPointsGW = highestPointsGW st,
           mi_lowestPoints = lowestPoints st,
           mi_lowestPointsGW = lowestPointsGW st,
           mi_highestRank = toLocaleString_jsnum (highestRank st),
           mi_highestRankGW = highestRankGW st,
           mi_lowestRank = toLocaleString (lowestRank st),
           mi_lowestRankGW = lowestRankGW st \<rparr>,
       an_playerStats = sort_desc totalPointsActive (object_values (playerStats st)),
       an_positionSummary =
         map (\<lambda>pos. \<lparr> ps_position = pos,
                      ps_totalPoints = foldl (\<lambda>sum player. sum + points player) 0
                                         (object_values (positionPoints st pos)),
                      ps_players = sort_desc points (object_values (positionPoints st pos)) \<rparr>)
             [GKP, DEF, MID, FWD],
       an_weeklyPoints = weeklyPoints st,
       an_weeklyRanks = weeklyRanks st \<rparr>"

section \<open>The handler\<close>

text \<open>\<^verbatim>\<open>/^\d+$/.test(managerId)\<close>: one or more ASCII digits and nothing else.\<close>

definition valid_managerId :: "string \<Rightarrow> bool" where
  "valid_managerId managerId =
     (managerId \<noteq> [] \<and> list_all (\<lambda>c. c \<in> set ''0123456789'') managerId)"

datatype body = ErrorBody string | AnalysisBody analysis

datatype response = Response nat body

text \<open>
  The \<^verbatim>\<open>try\<close> block up to the end of the gameweek loop. The four requests of
  \<^verbatim>\<open>Promise.all\<close> are all issued before any answer is looked at.
  \<^verbatim>\<open>events.find(event => event.is_current).id\<close> and \<^verbatim>\<open>standings.results[0].total\<close> throw
  a TypeError when nothing is found. The result is what the report is built from.
\<close>

record accumulated =
  acc_managerEntryData :: manager_entry
  acc_historyData :: manager_history
  acc_topManagerPoints :: int
  acc_currentGameweek :: nat
  acc_state :: analysis_state

definition accumulate :: "upstream \<Rightarrow> string \<Rightarrow> error + accumulated" where
  "accumulate w managerId =
     (let issued = [GetBootstrapStatic, GetEntry managerId, GetEntryHistory managerId, GetStandings]
      in case get_bootstrap_static w of None \<Rightarrow> Inl (Thrown issued) | Some playerData \<Rightarrow>
         (case get_entry w managerId of None \<Rightarrow> Inl (Thrown issued) | Some managerEntryData \<Rightarrow>
         (case get_entry_history w managerId of None \<Rightarrow> Inl (Thrown issued) | Some historyData \<Rightarrow>
         (case get_standings w of None \<Rightarrow> Inl (Thrown issued) | Some leagueData \<Rightarrow>
         (case find ev_is_current (events playerData) of None \<Rightarrow> Inl (Thrown issued) | Some ev \<Rightarrow>
         (case standings_results leagueData of [] \<Rightarrow> Inl (Thrown issued) | topManagerPoints # _ \<Rightarrow>
           (let currentGameweek = ev_id ev
            in case gameweek_loop w managerId playerData historyData currentGameweek 1
                      (init_state currentGameweek issued) of
                 Inl e \<Rightarrow> Inl e
               | Inr st \<Rightarrow>
                   Inr \<lparr> acc_managerEntryData = managerEntryData, acc_historyData = historyData,
                         acc_topManagerPoints = topManagerPoints,
                         acc_currentGameweek = currentGameweek, acc_state = st \<rparr>)))))))"

text \<open>The rest of the \<^verbatim>\<open>try\<close> block: the \<^verbatim>\<open>analysis\<close> object handed to \<^verbatim>\<open>res.json\<close>.\<close>

definition report :: "accumulated \<Rightarrow> analysis" where
  "report r = assemble (acc_managerEntryData r) (acc_historyData r) (acc_topManagerPoints r)
                (acc_currentGameweek r) (acc_state r)"

definition run_analysis :: "upstream \<Rightarrow> string \<Rightarrow> error + analysis \<times> request list" where
  "run_analysis w managerId =
     (case accumulate w managerId of
        Inl e \<Rightarrow> Inl e
      | Inr r \<Rightarrow> Inr (report r, calls (acc_state r)))"

text \<open>The whole route: the response sent and the upstream requests issued for it.\<close>

definition analyze_manager :: "upstream \<Rightarrow> string \<Rightarrow> response \<times> request list" where
  "analyze_manager w managerId =
     (if \<not> valid_managerId managerId
      then (Response 400 (ErrorBody ''Invalid manager ID format''), [])
      else (case run_analysis w managerId of
              Inl (Thrown issued) \<Rightarrow> (Response 500 (ErrorBody ''Failed to analyze manager''), issued)
            | Inr (a, issued) \<Rightarrow> (Response 200 (AnalysisBody a), issued)))"

section \<open>The bootstrap cache\<close>

text \<open>
  \<^verbatim>\<open>getBootstrapData\<close> of the revision that caches the bootstrap payload. The module
  variables \<^verbatim>\<open>bootstrapCache\<close> and \<^verbatim>\<open>bootstrapCacheTime\<close> are the state; \<open>now\<close> is
  \<^verbatim>\<open>Date.now()\<close> in milliseconds and \<open>reply\<close> what the provider would answer (\<open>None\<close>: the
  request is rejected and the exception leaves the function before the assignments).
  The guard tests the truthiness of both variables: an object is truthy, a number is
  truthy unless it is \<open>0\<close>. The result is the returned payload (\<open>None\<close> for the exception),
  the new state and the number of requests issued. Calls are taken one after the other.
\<close>

record cache_state =
  bootstrapCache :: "bootstrap option"
  bootstrapCacheTime :: "int option"

definition CACHE_DURATION :: int where
  "CACHE_DURATION = 3600000"

definition cache_hit :: "int \<Rightarrow> cache_state \<Rightarrow> bool" where
  "cache_hit now c =
     (bootstrapCache c \<noteq> None \<and>
      (case bootstrapCacheTime c of None \<Rightarrow> False | Some t \<Rightarrow> t \<noteq> 0 \<and> now - t < CACHE_DURATION))"

definition getBootstrapData ::
  "int \<Rightarrow> bootstrap option \<Rightarrow> cache_state \<Rightarrow> bootstrap option \<times> cache_state \<times> nat" where
  "getBootstrapData now reply c =
     (if cache_hit now c then (bootstrapCache c, c, 0)
      else (case reply of
              None \<Rightarrow> (None, c, 1)
            | Some data \<Rightarrow>
                (Some data, \<lparr> bootstrapCache = Some data, bootstrapCacheTime = Some now \<rparr>, 1)))"

text \<open>A sequence of calls, each with its clock reading and the provider's answer.\<close>

fun getBootstrapData_calls ::
  "(int \<times> bootstrap option) list \<Rightarrow> cache_state
     \<Rightarrow> bootstrap option list \<times> cache_state \<times> nat" where
  "getBootstrapData_calls [] c = ([], c, 0)"
| "getBootstrapData_calls (call # rest) c =
     (case getBootstrapData (fst call) (snd call) c of
        (r, c', n) \<Rightarrow>
          (case getBootstrapData_calls rest c' of
             (rs, c'', m) \<Rightarrow> (r # rs, c'', n + m)))"

section \<open>Reading results\<close>

text \<open>The report of a response, when there is one.\<close>

fun analysis_of :: "response \<times> request list \<Rightarrow> analysis option" where
  "analysis_of (Response code (AnalysisBody a), issued) = Some a"
| "analysis_of (Response code (ErrorBody msg), issued) = None"

text \<open>A counter of a player who may not have a stat yet (a new stat starts at zero).\<close>

definition counter :: "(player_stat \<Rightarrow> 'a::zero) \<Rightarrow> analysis_state \<Rightarrow> nat \<Rightarrow> 'a" where
  "counter f st playerId = (case map_of (playerStats st) playerId of None \<Rightarrow> 0 | Some s \<Rightarrow> f s)"

section \<open>The net effect of one pick\<close>

text \<open>
  What the statements of the active branch do to the player's stat, taken together
  (\<open>a\<close> is the value of \<^verbatim>\<open>activePoints\<close>), and what they do to the position's object.
\<close>

definition credited :: "bool \<Rightarrow> bool \<Rightarrow> int \<Rightarrow> player_stat \<Rightarrow> player_stat" where
  "credited inStarting11 isCaptain a s =
     s\<lparr> cappedPoints := cappedPoints s + (if isCaptain then a else 0),
        totalPointsActive := totalPointsActive s + a,
        starts := starts s + (if inStarting11 then 1 else 0),
        gwInSquad := gwInSquad s + 1 \<rparr>"

definition position_credit ::
  "nat \<Rightarrow> string \<Rightarrow> int \<Rightarrow> (nat \<times> position_entry) list \<Rightarrow> (nat \<times> position_entry) list" where
  "position_credit playerId nm a players =
     AList.map_entry playerId (\<lambda>e. e\<lparr>points := points e + a\<rparr>)
       (if map_of players playerId = None
        then players @ [(playerId, \<lparr>pe_name = nm, points = 0\<rparr>)] else players)"

definition pick_update :: "bool \<Rightarrow> bool \<Rightarrow> bool \<Rightarrow> int \<Rightarrow> int \<Rightarrow> player_stat \<Rightarrow> player_stat" where
  "pick_update active inStarting11 isCaptain p a s =
     (if active then credited inStarting11 isCaptain a (s\<lparr>playerPoints := playerPoints s + p\<rparr>)
      else s\<lparr>playerPoints := playerPoints s + p\<rparr>)"

text \<open>
  Whether a pick counts as active, what it adds to the week's total, and the handler's
  variables after the pick (\<open>stats\<close> is \<open>playerStats\<close> with the player's stat present,
  \<open>stat\<close> that stat, \<open>p\<close> the resolved score).
\<close>

definition active_pick :: "bool \<Rightarrow> pick \<Rightarrow> bool" where
  "active_pick isBenchBoost pk = (pick_position pk \<le> 11 \<or> isBenchBoost)"

definition contribution :: "bool \<Rightarrow> bool \<Rightarrow> pick \<Rightarrow> int \<Rightarrow> int" where
  "contribution isBenchBoost isTripleCaptain pk p =
     (if active_pick isBenchBoost pk then activePoints (is_captain pk) isTripleCaptain p else 0)"

definition pick_effect ::
  "bool \<Rightarrow> bool \<Rightarrow> pick \<Rightarrow> int \<Rightarrow> (nat \<times> player_stat) list \<Rightarrow> player_stat
     \<Rightarrow> analysis_state \<Rightarrow> analysis_state" where
  "pick_effect isBenchBoost isTripleCaptain pk p stats stat st =
     st\<lparr> calls := calls st @ [GetElementSummary (pick_element pk)],
         playerStats := AList.map_entry (pick_element pk)
            (pick_update (active_pick isBenchBoost pk) (pick_position pk \<le> 11) (is_captain pk) p
               (activePoints (is_captain pk) isTripleCaptain p)) stats,
         totalCaptaincyPoints := totalCaptaincyPoints st +
            (if is_captain pk then contribution isBenchBoost isTripleCaptain pk p else 0),
         totalPointsActiveAll := totalPointsActiveAll st + contribution isBenchBoost isTripleCaptain pk p,
         totalPointsLostOnBench := totalPointsLostOnBench st +
            (if active_pick isBenchBoost pk then 0 else p),
         positionPoints :=
            (if active_pick isBenchBoost pk
             then (positionPoints st)(the (position stat) :=
                    position_credit (pick_element pk) (name stat)
                      (activePoints (is_captain pk) isTripleCaptain p)
                      (positionPoints st (the (position stat))))
             else positionPoints st) \<rparr>"

section \<open>Quantities the claims speak of\<close>

text \<open>The sum of \<open>totalPointsActive\<close> over all stats of a \<open>playerStats\<close> object.\<close>

definition active_total :: "(nat \<times> player_stat) list \<Rightarrow> int" where
  "active_total stats = sum_list (map (\<lambda>kv. totalPointsActive (snd kv)) stats)"

text \<open>
  \<open>earliest_max xs gw v\<close>: among the weekly values \<open>xs\<close> (gameweek \<open>i + 1\<close> at index
  \<open>i\<close>) the greatest value is \<open>v\<close> and \<open>gw\<close> is the first gameweek that has it;
  \<open>earliest_min\<close> likewise for the least value.
\<close>

definition earliest_max :: "'a::linorder list \<Rightarrow> nat \<Rightarrow> 'a \<Rightarrow> bool" where
  "earliest_max xs gw v =
     (1 \<le> gw \<and> gw \<le> length xs \<and> xs ! (gw - 1) = v \<and>
      list_all (\<lambda>x. x \<le> v) xs \<and> list_all (\<lambda>x. x < v) (take (gw - 1) xs))"

definition earliest_min :: "'a::linorder list \<Rightarrow> nat \<Rightarrow> 'a \<Rightarrow> bool" where
  "earliest_min xs gw v =
     (1 \<le> gw \<and> gw \<le> length xs \<and> xs ! (gw - 1) = v \<and>
      list_all (\<lambda>x. v \<le> x) xs \<and> list_all (\<lambda>x. v < x) (take (gw - 1) xs))"

text \<open>
  What a running maximum that starts at \<open>0\<close> with gameweek \<open>0\<close> holds after the weeks
  \<open>xs\<close>, and what a running minimum that starts at \<^verbatim>\<open>Infinity\<close> with gameweek \<open>0\<close> holds.
\<close>

definition tracks_max :: "'a::{linorder,zero} list \<Rightarrow> 'a \<Rightarrow> nat \<Rightarrow> bool" where
  "tracks_max xs v gw =
     (if list_ex (\<lambda>x. 0 < x) xs then earliest_max xs gw v else v = 0 \<and> gw = 0)"

definition tracks_min :: "'a::linorder list \<Rightarrow> 'a jsnum \<Rightarrow> nat \<Rightarrow> bool" where
  "tracks_min xs v gw =
     (case v of Infinity \<Rightarrow> xs = [] \<and> gw = 0 | Num m \<Rightarrow> earliest_min xs gw m)"

text \<open>
  The loop invariant behind the weekly sum, at the head of the loop for gameweek \<open>gw\<close>:
  the entries from \<open>gw - 1\<close> on are still \<open>0\<close>, and the entries sum to the active total.
\<close>

definition weekly_sum_inv :: "nat \<Rightarrow> nat \<Rightarrow> analysis_state \<Rightarrow> bool" where
  "weekly_sum_inv G gw st =
     (1 \<le> gw \<and> length (weeklyPoints st) = G \<and>
      (\<forall>i. gw - 1 \<le> i \<and> i < G \<longrightarrow> weeklyPoints st ! i = 0) \<and>
      sum_list (weeklyPoints st) = active_total (playerStats st) \<and>
      totalPointsActiveAll st = active_total (playerStats st))"

text \<open>
  The loop invariant behind the extrema, at the head of the loop for gameweek \<open>gw\<close>: the
  four running extrema describe the weeks processed so far, and the ranks recorded so
  far are the ranks of the manager's history.
\<close>

definition extrema_inv :: "manager_history \<Rightarrow> nat \<Rightarrow> nat \<Rightarrow> analysis_state \<Rightarrow> bool" where
  "extrema_inv hist G gw st =
     (1 \<le> gw \<and> gw \<le> Suc G \<and>
      length (weeklyPoints st) = G \<and> length (weeklyRanks st) = G \<and>
      take (gw - 1) (weeklyRanks st) = map (gwRank_of hist) [1..<gw] \<and>
      tracks_max (take (gw - 1) (weeklyPoints st)) (highestPoints st) (highestPointsGW st) \<and>
      tracks_min (take (gw - 1) (weeklyPoints st)) (lowestPoints st) (lowestPointsGW st) \<and>
      tracks_min (take (gw - 1) (weeklyRanks st)) (highestRank st) (highestRankGW st) \<and>
      tracks_max (take (gw - 1) (weeklyRanks st)) (lowestRank st) (lowestRankGW st))"

text \<open>
  Whether the raw score \<open>p\<close> of a pick covers what the pick adds to
  \<open>totalPointsActive\<close>: an active captain must not have a positive score (it is doubled
  or tripled), a pick left on the bench must not have a negative one.
\<close>

definition raw_covers_active :: "bool \<Rightarrow> pick \<Rightarrow> int \<Rightarrow> bool" where
  "raw_covers_active isBenchBoost pk p =
     (if active_pick isBenchBoost pk then \<not> (is_captain pk \<and> 0 < p) else 0 \<le> p)"

text \<open>That holds of every pick of player \<open>playerId\<close> in the gameweeks \<open>1..k\<close>.\<close>

definition fair_weeks :: "upstream \<Rightarrow> string \<Rightarrow> nat \<Rightarrow> nat \<Rightarrow> bool" where
  "fair_weeks w managerId k playerId =
     list_all (\<lambda>gw.
        case get_picks w managerId gw of
          None \<Rightarrow> True
        | Some managerPicksData \<Rightarrow>
            list_all (\<lambda>pk.
               pick_element pk \<noteq> playerId \<or>
               (case get_element_summary w playerId of
                  None \<Rightarrow> True
                | Some summary \<Rightarrow>
                    raw_covers_active (active_chip managerPicksData = Some ''bboost'') pk
                      (pointsThisWeek (history summary) gw)))
              (picks managerPicksData))
       [1..<Suc k]"

definition raw_at_least_active :: "player_stat \<Rightarrow> bool" where
  "raw_at_least_active s = (totalPointsActive s \<le> playerPoints s)"

text \<open>The upstream requests a run has issued, whether it ended in an exception or not.\<close>

definition issued_by :: "error + analysis_state \<Rightarrow> request list" where
  "issued_by res = (case res of Inl (Thrown issued) \<Rightarrow> issued | Inr st \<Rightarrow> calls st)"


definition issued_in_week :: "error + int \<times> analysis_state \<Rightarrow> request list" where
  "issued_in_week res = (case res of Inl (Thrown issued) \<Rightarrow> issued | Inr acc \<Rightarrow> calls (snd acc))"


text \<open>The provider with a record of 0 points for round \<open>gw\<close> put in front of a player's history.\<close>


definition with_zero_round :: "upstream \<Rightarrow> nat \<Rightarrow> nat \<Rightarrow> upstream" where
  "with_zero_round w playerId gw =
     w\<lparr> get_element_summary := (\<lambda>q.
           if q = playerId
           then map_option (\<lambda>summary. summary\<lparr> history :=
                   \<lparr>h_round = gw, total_points = 0\<rparr> # history summary \<rparr>)
                  (get_element_summary w q)
           else get_element_summary w q) \<rparr>"


section \<open>Example data\<close>

text \<open>
  A small provider: two players of one team, a manager, and a season of two gameweeks in
  which the second is played with the bench-boost chip. Player 3 is captain in both weeks
  and has a score for both rounds; player 5 sits at squad position 12 and has a score for
  round 1 only.
\<close>

definition demo_elements :: "element list" where
  "demo_elements =
     [\<lparr>el_id = 3, el_web_name = ''Saka'', el_team = 1, el_element_type = 3\<rparr>,
      \<lparr>el_id = 5, el_web_name = ''Rice'', el_team = 1, el_element_type = 3\<rparr>]"

definition demo_bootstrap :: "nat \<Rightarrow> bootstrap" where
  "demo_bootstrap currentGameweek =
     \<lparr> elements = demo_elements, teams = [\<lparr>team_name = ''Arsenal''\<rparr>],
       events = [\<lparr>ev_id = currentGameweek, ev_is_current = True\<rparr>] \<rparr>"

definition demo_upstream ::
  "nat \<Rightarrow> season_record list \<Rightarrow> (nat \<Rightarrow> picks_data option) \<Rightarrow> (nat \<Rightarrow> round_history list)
     \<Rightarrow> upstream" where
  "demo_upstream currentGameweek seasons picks_of history_of =
     \<lparr> get_bootstrap_static = Some (demo_bootstrap currentGameweek),
       get_entry = (\<lambda>managerId. Some \<lparr> player_first_name = ''Ada'', player_last_name = ''Byron'',
                       entry_name = ''Engines'', summary_overall_rank = Some 1234,
                       summary_overall_points = 90 \<rparr>),
       get_entry_history = (\<lambda>managerId. Some \<lparr> current = seasons, chips = [], past = [] \<rparr>),
       get_standings = Some \<lparr> standings_results = [100] \<rparr>,
       get_picks = (\<lambda>managerId. picks_of),
       get_element_summary = (\<lambda>playerId. Some \<lparr> history = history_of playerId \<rparr>) \<rparr>"

definition captain_pick :: pick where
  "captain_pick = \<lparr>pick_element = 3, pick_position = 1, is_captain = True\<rparr>"

definition bench_pick :: pick where
  "bench_pick = \<lparr>pick_element = 5, pick_position = 12, is_captain = False\<rparr>"

definition plain_week :: picks_data where
  "plain_week = \<lparr> picks = [captain_pick, bench_pick], active_chip = None \<rparr>"

definition bench_boost_week :: picks_data where
  "bench_boost_week = \<lparr> picks = [captain_pick, bench_pick], active_chip = Some ''bboost'' \<rparr>"

definition two_weeks_picks :: "nat \<Rightarrow> picks_data option" where
  "two_weeks_picks gw = Some (if gw = 2 then bench_boost_week else plain_week)"

definition two_weeks_history :: "nat \<Rightarrow> round_history list" where
  "two_weeks_history playerId =
     (if playerId = 3 then [\<lparr>h_round = 1, total_points = 4\<rparr>, \<lparr>h_round = 2, total_points = 6\<rparr>]
      else [\<lparr>h_round = 1, total_points = 2\<rparr>])"

definition two_weeks :: upstream where
  "two_weeks = demo_upstream 2
     [\<lparr>h_event = 1, overall_rank = Some 5000\<rparr>, \<lparr>h_event = 2, overall_rank = Some 4000\<rparr>]
     two_weeks_picks two_weeks_history"

text \<open>The same season when the manager's history lacks the second week, or both weeks.\<close>

definition late_history :: upstream where
  "late_history = demo_upstream 2 [\<lparr>h_event = 1, overall_rank = Some 5000\<rparr>]
     two_weeks_picks two_weeks_history"

definition no_history :: upstream where
  "no_history = demo_upstream 2 [] two_weeks_picks two_weeks_history"

text \<open>A season of one gameweek with the captain as the only pick.\<close>

definition captain_week :: upstream where
  "captain_week = demo_upstream 1 [\<lparr>h_event = 1, overall_rank = Some 5000\<rparr>]
     (\<lambda>gw. Some \<lparr> picks = [captain_pick], active_chip = None \<rparr>) two_weeks_history"

text \<open>
  A season of one gameweek in which player 5 is picked before player 3 and both score
  2 points.
\<close>

definition tie_week :: upstream where
  "tie_week = demo_upstream 1 [\<lparr>h_event = 1, overall_rank = Some 5000\<rparr>]
     (\<lambda>gw. Some \<lparr> picks = [\<lparr>pick_element = 5, pick_position = 1, is_captain = False\<rparr>,
                             \<lparr>pick_element = 3, pick_position = 2, is_captain = False\<rparr>],
                    active_chip = None \<rparr>)
     (\<lambda>playerId. [\<lparr>h_round = 1, total_points = 2\<rparr>])"

text \<open>
  A season of seven gameweeks with player 3 as the only pick, never captain; \<open>ps\<close> are
  the player's scores of the rounds \<open>1..7\<close>, so they are the weekly totals.
\<close>

definition points_history :: "int list \<Rightarrow> round_history list" where
  "points_history ps =
     map (\<lambda>gp. \<lparr>h_round = fst gp, total_points = snd gp\<rparr>) (zip [1..<Suc (length ps)] ps)"

definition seven_weeks :: "int list \<Rightarrow> upstream" where
  "seven_weeks ps = demo_upstream 7 []
     (\<lambda>gw. Some \<lparr> picks = [\<lparr>pick_element = 3, pick_position = 1, is_captain = False\<rparr>],
                    active_chip = None \<rparr>)
     (\<lambda>playerId. points_history ps)"

text \<open>The handler's variables after the two gameweeks of the example season.\<close>

definition two_weeks_state :: "error + analysis_state" where
  "two_weeks_state =
     gameweek_loop two_weeks ''1'' (demo_bootstrap 2) \<lparr>current = [], chips = [], past = []\<rparr> 2 1
       (init_state 2 [])"

text \<open>One pick processed as the first pick of a run over the example season, at gameweek \<open>gw\<close>.\<close>

definition first_pick_step :: "pick \<Rightarrow> nat \<Rightarrow> error + int \<times> analysis_state" where
  "first_pick_step pk gw =
     process_pick two_weeks (demo_bootstrap 2) gw (active_chip plain_week = Some ''bboost'')
       (active_chip plain_week = Some ''3xc'') pk (0, init_state 2 [])"

text \<open>The same in a week played with the bench boost chip.\<close>

definition boosted_pick_step :: "pick \<Rightarrow> nat \<Rightarrow> error + int \<times> analysis_state" where
  "boosted_pick_step pk gw =
     process_pick two_weeks (demo_bootstrap 2) gw (active_chip bench_boost_week = Some ''bboost'')
       (active_chip bench_boost_week = Some ''3xc'') pk (0, init_state 2 [])"

section \<open>Properties of the pick step\<close>

lemma map_entry_comp:
  "AList.map_entry k f (AList.map_entry k g xs) = AList.map_entry k (\<lambda>x. f (g x)) xs"
  by (induction xs) auto

lemma map_of_map_entry_Some:
  "map_of xs k = Some v \<Longrightarrow> map_of (AList.map_entry k f xs) k = Some (f v)"
  by (simp add: map_of_map_entry)

lemma map_of_map_entry_None:
  "map_of xs k = None \<Longrightarrow> map_of (AList.map_entry k f xs) k = None"
  by (simp add: map_of_map_entry)

lemma map_of_map_entry_other:
  "k' \<noteq> k \<Longrightarrow> map_of (AList.map_entry k f xs) k' = map_of xs k'"
  by (simp add: map_of_map_entry)

lemma credit_active_Inr:
  assumes "credit_active in11 cap tc pid p (g, st) = Inr (g', st')"
  shows "\<exists>stat pos. map_of (playerStats st) pid = Some stat \<and> position stat = Some pos \<and>
           g' = g + activePoints cap tc p \<and>
           st' = st\<lparr> totalCaptaincyPoints :=
                       totalCaptaincyPoints st + (if cap then activePoints cap tc p else 0),
                     totalPointsActiveAll := totalPointsActiveAll st + activePoints cap tc p,
                     playerStats := AList.map_entry pid
                       (credited in11 cap (activePoints cap tc p)) (playerStats st),
                     positionPoints := (positionPoints st)
                       (pos := position_credit pid (name stat) (activePoints cap tc p)
                                 (positionPoints st pos)) \<rparr>"
proof (cases "map_of (playerStats st) pid")
  case None
  then show ?thesis using assms
    by (simp add: credit_active_def Let_def map_of_map_entry_None split: if_splits)
next
  case (Some stat)
  show ?thesis
  proof (cases "position stat")
    case None
    then show ?thesis using assms Some
      by (simp add: credit_active_def Let_def map_of_map_entry_Some split: if_splits)
  next
    case (Some pos)
    show ?thesis using assms \<open>map_of (playerStats st) pid = Some stat\<close> Some
      by (cases cap; cases in11)
         (auto simp add: credit_active_def Let_def map_of_map_entry_Some map_entry_comp
             position_credit_def fun_eq_iff credited_def [abs_def])
  qed
qed

lemma process_pick_skip:
  "find (\<lambda>p. el_id p = pick_element pk) (elements pd) = None \<Longrightarrow>
   process_pick w pd gw bb tc pk acc = Inr acc"
  by (simp add: process_pick_def Let_def)

lemma ensure_stat_Some:
  assumes "ensure_stat pd player pid stats = Some stats'"
  shows "\<exists>stat. map_of stats' pid = Some stat"
  using assms by (auto simp: ensure_stat_def map_add_def split: if_splits)

lemma process_pick_Inr:
  assumes ok: "process_pick w pd gw bb tc pk (g, st) = Inr (g', st')"
      and found: "find (\<lambda>p. el_id p = pick_element pk) (elements pd) = Some player"
  shows "\<exists>summ stats stat.
           get_element_summary w (pick_element pk) = Some summ \<and>
           ensure_stat pd player (pick_element pk) (playerStats st) = Some stats \<and>
           map_of stats (pick_element pk) = Some stat \<and>
           (active_pick bb pk \<longrightarrow> position stat \<noteq> None) \<and>
           g' = g + contribution bb tc pk (pointsThisWeek (history summ) gw) \<and>
           st' = pick_effect bb tc pk (pointsThisWeek (history summ) gw) stats stat st"
proof -
  let ?pid = "pick_element pk"
  obtain summ where summ: "get_element_summary w ?pid = Some summ"
    using ok found by (cases "get_element_summary w ?pid") (simp_all add: process_pick_def Let_def)
  let ?p = "pointsThisWeek (history summ) gw"
  obtain stats where stats: "ensure_stat pd player ?pid (playerStats st) = Some stats"
    using ok found summ
    by (cases "ensure_stat pd player ?pid (playerStats st)") (simp_all add: process_pick_def Let_def)
  obtain stat where stat: "map_of stats ?pid = Some stat"
    using ensure_stat_Some [OF stats] by blast
  show ?thesis
  proof (cases "pick_position pk \<le> 11 \<or> bb")
    case False
    then show ?thesis using ok found summ stats stat
      by (auto simp add: process_pick_def Let_def pick_update_def [abs_def]
            active_pick_def contribution_def pick_effect_def)
  next
    case True
    let ?st2 = "st\<lparr> calls := calls st @ [GetElementSummary ?pid],
                    playerStats := AList.map_entry ?pid
                      (\<lambda>s. s\<lparr>playerPoints := playerPoints s + ?p\<rparr>) stats \<rparr>"
    have ca: "credit_active (pick_position pk \<le> 11) (is_captain pk) tc ?pid ?p (g, ?st2)
                = Inr (g', st')"
      using ok found summ stats True by (auto simp add: process_pick_def Let_def)
    from credit_active_Inr [OF ca] obtain stat2 pos where
      s2: "map_of (playerStats ?st2) ?pid = Some stat2" and pos: "position stat2 = Some pos"
      and g': "g' = g + activePoints (is_captain pk) tc ?p"
      and st': "st' = ?st2\<lparr> totalCaptaincyPoints := totalCaptaincyPoints ?st2 +
                         (if is_captain pk then activePoints (is_captain pk) tc ?p else 0),
                     totalPointsActiveAll :=
                         totalPointsActiveAll ?st2 + activePoints (is_captain pk) tc ?p,
                     playerStats := AList.map_entry ?pid
                         (credited (pick_position pk \<le> 11) (is_captain pk)
                            (activePoints (is_captain pk) tc ?p)) (playerStats ?st2),
                     positionPoints := (positionPoints ?st2)
                         (pos := position_credit ?pid (name stat2)
                                   (activePoints (is_captain pk) tc ?p) (positionPoints ?st2 pos)) \<rparr>"
      by blast
    have stat2: "stat2 = stat\<lparr>playerPoints := playerPoints stat + ?p\<rparr>"
      using s2 stat by (simp add: map_of_map_entry_Some)
    show ?thesis
      using True summ stats stat g' pos unfolding st' stat2
      by (simp add: map_entry_comp pick_update_def [abs_def]
            active_pick_def contribution_def pick_effect_def)
  qed
qed

section \<open>Evaluating the model on concrete data\<close>

lemmas model_defs = analyze_manager_def run_analysis_def report_def accumulate_def assemble_def
  valid_managerId_def process_gameweek_def process_pick_def credit_active_def ensure_stat_def
  new_player_stat_def position_of_def pointsThisWeek_def activePoints_def gwRank_of_def
  season_record_of_def
  track_extrema_def init_state_def object_values_def is_array_index_def sort_desc_def
  toLocaleString_def decimal.simps gameweek_loop.simps Let_def

lemmas demo_defs = demo_upstream_def demo_bootstrap_def demo_elements_def captain_pick_def
  bench_pick_def plain_week_def bench_boost_week_def two_weeks_picks_def two_weeks_history_def
  two_weeks_def

lemma replicate_numeral_Cons: "replicate (numeral k) x = x # replicate (pred_numeral k) x"
  by (simp add: numeral_eq_Suc)

lemma ensure_stat_counters:
  assumes "ensure_stat pd player pid (playerStats st) = Some stats"
      and "map_of stats pid = Some stat"
  shows "totalPointsActive stat = counter totalPointsActive st pid"
    and "cappedPoints stat = counter cappedPoints st pid"
    and "playerPoints stat = counter playerPoints st pid"
    and "starts stat = counter starts st pid"
    and "gwInSquad stat = counter gwInSquad st pid"
  using assms
  by (auto simp: ensure_stat_def counter_def new_player_stat_def map_add_def
           split: if_splits option.splits)

lemma ensure_stat_other:
  assumes "ensure_stat pd player pid stats = Some stats'" and "q \<noteq> pid"
  shows "map_of stats' q = map_of stats q"
  using assms by (auto simp: ensure_stat_def map_add_def split: if_splits option.splits)

lemma counter_pick_effect:
  assumes "ensure_stat pd player (pick_element pk) (playerStats st) = Some stats"
      and "map_of stats (pick_element pk) = Some stat"
  shows "counter f (pick_effect bb tc pk p stats stat st) q =
           (if q = pick_element pk
            then f (pick_update (active_pick bb pk) (pick_position pk \<le> 11) (is_captain pk) p
                      (activePoints (is_captain pk) tc p) stat)
            else counter f st q)"
  using assms
  by (simp add: counter_def pick_effect_def map_of_map_entry_Some map_of_map_entry_other
        ensure_stat_other)

lemma process_pick_succeeds:
  assumes found: "find (\<lambda>p. el_id p = pick_element pk) (elements pd) = Some player"
      and summ: "get_element_summary w (pick_element pk) = Some summ"
      and stats: "ensure_stat pd player (pick_element pk) (playerStats st) = Some stats"
      and stat: "map_of stats (pick_element pk) = Some stat"
      and pos: "active_pick bb pk \<longrightarrow> position stat \<noteq> None"
  shows "\<exists>g' st'. process_pick w pd gw bb tc pk (g, st) = Inr (g', st')"
  using assms
  by (auto simp add: process_pick_def credit_active_def Let_def active_pick_def
        map_of_map_entry_Some)

section \<open>Properties of the two loops\<close>

lemma process_pick_cases:
  assumes "process_pick w pd gw bb tc pk (g, st) = Inr (g', st')"
  obtains (skip) "find (\<lambda>p. el_id p = pick_element pk) (elements pd) = None" "g' = g" "st' = st"
  | (hit) player summ stats stat where
      "find (\<lambda>p. el_id p = pick_element pk) (elements pd) = Some player"
      "get_element_summary w (pick_element pk) = Some summ"
      "ensure_stat pd player (pick_element pk) (playerStats st) = Some stats"
      "map_of stats (pick_element pk) = Some stat"
      "active_pick bb pk \<longrightarrow> position stat \<noteq> None"
      "g' = g + contribution bb tc pk (pointsThisWeek (history summ) gw)"
      "st' = pick_effect bb tc pk (pointsThisWeek (history summ) gw) stats stat st"
proof (cases "find (\<lambda>p. el_id p = pick_element pk) (elements pd)")
  case None
  then show ?thesis using assms skip by (simp add: process_pick_skip)
next
  case (Some player)
  from process_pick_Inr [OF assms Some] show ?thesis using hit Some by blast
qed

lemma missing_round_like_zero_round:
  assumes "get_element_summary w (pick_element pk) = Some summary"
      and "find (\<lambda>h. h_round h = gw) (history summary) = None"
  shows "process_pick w playerData gw bb tc pk acc
           = process_pick (with_zero_round w (pick_element pk) gw) playerData gw bb tc pk acc"
  using assms
  by (simp add: process_pick_def Let_def with_zero_round_def pointsThisWeek_def
        split: option.splits)

lemma map_fst_map_entry: "map fst (AList.map_entry k f xs) = map fst xs"
  by (induction xs) auto

lemma process_pick_insertion_order:
  assumes "process_pick w pd gw bb tc pk (g, st) = Inr (g', st')"
  shows "map fst (playerStats st') =
           (if find (\<lambda>p. el_id p = pick_element pk) (elements pd) \<noteq> None
               \<and> pick_element pk \<notin> set (map fst (playerStats st))
            then map fst (playerStats st) @ [pick_element pk]
            else map fst (playerStats st))"
  using assms
proof (cases rule: process_pick_cases)
  case skip
  then show ?thesis by simp
next
  case (hit player summ stats stat)
  have "map fst stats =
          (if pick_element pk \<notin> set (map fst (playerStats st))
           then map fst (playerStats st) @ [pick_element pk] else map fst (playerStats st))"
    using hit(3)
    by (auto simp add: ensure_stat_def map_of_eq_None_iff split: if_splits)
  then show ?thesis using hit(1)
    by (simp add: hit(7) pick_effect_def map_fst_map_entry)
qed

lemma process_picks_preserves:
  assumes "process_picks w pd gw bb tc pks acc = Inr acc'"
      and "P acc"
      and "\<And>pk a a'. pk \<in> set pks \<Longrightarrow> P a \<Longrightarrow> process_pick w pd gw bb tc pk a = Inr a' \<Longrightarrow> P a'"
  shows "P acc'"
  using assms
proof (induction pks arbitrary: acc)
  case Nil
  then show ?case by simp
next
  case (Cons pk pks)
  from Cons.prems(1) obtain a where a: "process_pick w pd gw bb tc pk acc = Inr a"
    and rest: "process_picks w pd gw bb tc pks a = Inr acc'"
    by (auto split: sum.splits)
  have "P a" using Cons.prems(3) [of pk acc a] Cons.prems(2) a by simp
  moreover have "P b'"
    if "pk' \<in> set pks" "P b" "process_pick w pd gw bb tc pk' b = Inr b'" for pk' b b'
    using Cons.prems(3) [of pk' b b'] that by simp
  ultimately show ?case using Cons.IH [OF rest] by blast
qed

lemma process_gameweek_Inr:
  assumes "process_gameweek w m pd hist gw st = Inr st'"
  obtains mpd g st2 where
    "get_picks w m gw = Some mpd"
    "process_picks w pd gw (active_chip mpd = Some ''bboost'') (active_chip mpd = Some ''3xc'')
       (picks mpd) (0, st\<lparr>calls := calls st @ [GetPicks m gw]\<rparr>) = Inr (g, st2)"
    "st' = track_extrema gw g (gwRank_of hist gw)
             (st2\<lparr> weeklyPoints := (weeklyPoints st2)[gw - 1 := g],
                   weeklyRanks := (weeklyRanks st2)[gw - 1 := gwRank_of hist gw] \<rparr>)"
  using assms
  by (auto simp add: process_gameweek_def Let_def split: option.splits sum.splits)

lemma gameweek_loop_invariant:
  assumes "gameweek_loop w m pd hist G gw st = Inr st'"
      and "I gw st"
      and "\<And>gw st st'. gw \<le> G \<Longrightarrow> I gw st \<Longrightarrow> process_gameweek w m pd hist gw st = Inr st'
             \<Longrightarrow> I (Suc gw) st'"
  shows "I (max gw (Suc G)) st'"
  using assms
proof (induction w m pd hist G gw st rule: gameweek_loop.induct)
  case (1 w m pd hist G gw st)
  show ?case
  proof (cases "gw \<le> G")
    case False
    then have "st' = st" using "1.prems"(1) by (simp add: gameweek_loop.simps)
    moreover have "max gw (Suc G) = gw" using False by simp
    ultimately show ?thesis using "1.prems"(2) by simp
  next
    case True
    from "1.prems"(1) True obtain st1 where
      s1: "process_gameweek w m pd hist gw st = Inr st1"
      and rest: "gameweek_loop w m pd hist G (Suc gw) st1 = Inr st'"
      by (auto simp add: gameweek_loop.simps [of w m pd hist G gw] split: sum.splits)
    have i1: "I (Suc gw) st1" using "1.prems"(3) [OF True "1.prems"(2) s1] .
    have "I (max (Suc gw) (Suc G)) st'"
      using "1.IH" [OF True s1 rest i1] "1.prems"(3) by blast
    moreover have "max (Suc gw) (Suc G) = max gw (Suc G)" using True by simp
    ultimately show ?thesis by simp
  qed
qed

lemma gameweek_loop_prefix:
  assumes "gw \<le> Suc k" and "k \<le> G"
  shows "gameweek_loop w m pd hist G gw st =
           (case gameweek_loop w m pd hist k gw st of
              Inl e \<Rightarrow> Inl e
            | Inr st' \<Rightarrow> gameweek_loop w m pd hist G (Suc k) st')"
  using assms
proof (induction w m pd hist k gw st rule: gameweek_loop.induct)
  case (1 w m pd hist k gw st)
  show ?case
  proof (cases "gw \<le> k")
    case False
    then have "gw = Suc k" using "1.prems" by simp
    then show ?thesis by (simp add: gameweek_loop.simps [of w m pd hist k "Suc k"])
  next
    case True
    then have gG: "gw \<le> G" using "1.prems" by simp
    show ?thesis
    proof (cases "process_gameweek w m pd hist gw st")
      case (Inl e)
      then show ?thesis using True gG
        by (simp add: gameweek_loop.simps [of w m pd hist k gw] gameweek_loop.simps [of w m pd hist G gw])
    next
      case (Inr st1)
      have "gameweek_loop w m pd hist G (Suc gw) st1 =
           (case gameweek_loop w m pd hist k (Suc gw) st1 of
              Inl e \<Rightarrow> Inl e
            | Inr st' \<Rightarrow> gameweek_loop w m pd hist G (Suc k) st')"
        using "1.IH" [OF True Inr] True "1.prems" by simp
      then show ?thesis using True gG Inr
        by (simp add: gameweek_loop.simps [of w m pd hist k gw] gameweek_loop.simps [of w m pd hist G gw])
    qed
  qed
qed

lemma accumulate_Inr:
  assumes "accumulate w managerId = Inr r"
  obtains pd issued where
    "gameweek_loop w managerId pd (acc_historyData r) (acc_currentGameweek r) 1
       (init_state (acc_currentGameweek r) issued) = Inr (acc_state r)"
  using assms
  by (auto simp add: accumulate_def Let_def split: option.splits list.splits sum.splits)

lemma analyze_manager_report:
  "analysis_of (analyze_manager w managerId) = Some a \<longleftrightarrow>
     valid_managerId managerId \<and> (\<exists>r. accumulate w managerId = Inr r \<and> a = report r)"
  by (auto simp add: analyze_manager_def run_analysis_def split: sum.splits error.splits)

lemma accumulate_inputs:
  assumes "accumulate w managerId = Inr r"
  shows "get_entry_history w managerId = Some (acc_historyData r)"
    and "mi_currentGameweek (an_managerInfo (report r)) = acc_currentGameweek r"
  using assms
  by (auto simp add: accumulate_def Let_def report_def assemble_def
        split: option.splits list.splits sum.splits)

section \<open>Claims about one pick\<close>

text \<open>
  Claim C2. A pick that counts as active (squad position at most 11, or bench boost)
  with base score \<open>p\<close> adds \<open>a\<close> to the player's \<open>totalPointsActive\<close> and to the week's
  running total, where \<open>a\<close> is \<open>p * 3\<close> for a captain under the triple-captain chip,
  \<open>p * 2\<close> for a captain otherwise, and \<open>p\<close> for any other pick; for a captain the
  same multiplied amount \<open>a\<close> is added to \<open>cappedPoints\<close> and to \<open>totalCaptaincyPoints\<close>.
  The two flags are the ones \<open>process_gameweek\<close> passes for the week's \<open>active_chip\<close>.
\<close>

theorem captain_multiplier:
  assumes found: "find (\<lambda>p. el_id p = pick_element pk) (elements playerData) = Some player"
      and summary: "get_element_summary w (pick_element pk) = Some summary"
      and active: "pick_position pk \<le> 11 \<or> active_chip managerPicksData = Some ''bboost''"
      and ok: "process_pick w playerData gw (active_chip managerPicksData = Some ''bboost'')
                 (active_chip managerPicksData = Some ''3xc'') pk (gwPoints, st) = Inr (gwPoints', st')"
      and p: "p = pointsThisWeek (history summary) gw"
      and a: "a = (if is_captain pk
                   then (if active_chip managerPicksData = Some ''3xc'' then p * 3 else p * 2)
                   else p)"
  shows "counter totalPointsActive st' (pick_element pk)
           = counter totalPointsActive st (pick_element pk) + a \<and>
         gwPoints' = gwPoints + a \<and>
         counter cappedPoints st' (pick_element pk)
           = counter cappedPoints st (pick_element pk) + (if is_captain pk then a else 0) \<and>
         totalCaptaincyPoints st'
           = totalCaptaincyPoints st + (if is_captain pk then a else 0)"
proof -
  let ?bb = "active_chip managerPicksData = Some ''bboost''"
  let ?tc = "active_chip managerPicksData = Some ''3xc''"
  from process_pick_Inr [OF ok found] summary obtain stats stat where
    stats: "ensure_stat playerData player (pick_element pk) (playerStats st) = Some stats"
    and stat: "map_of stats (pick_element pk) = Some stat"
    and g': "gwPoints' = gwPoints + contribution ?bb ?tc pk p"
    and st': "st' = pick_effect ?bb ?tc pk p stats stat st"
    unfolding p by auto
  have act: "active_pick ?bb pk" using active by (simp add: active_pick_def)
  have a': "activePoints (is_captain pk) ?tc p = a"
    by (simp add: activePoints_def a)
  have c: "contribution ?bb ?tc pk p = a"
    using act a' by (simp add: contribution_def)
  note cs = ensure_stat_counters [OF stats stat]
  have "counter totalPointsActive st' (pick_element pk)
           = counter totalPointsActive st (pick_element pk) + a"
    by (simp add: st' counter_pick_effect [OF stats stat] act a' pick_update_def credited_def cs)
  moreover have "gwPoints' = gwPoints + a"
    using g' c by simp
  moreover have "counter cappedPoints st' (pick_element pk)
           = counter cappedPoints st (pick_element pk) + (if is_captain pk then a else 0)"
    by (simp add: st' counter_pick_effect [OF stats stat] act a' pick_update_def credited_def cs)
  moreover have "totalCaptaincyPoints st'
           = totalCaptaincyPoints st + (if is_captain pk then a else 0)"
    by (simp add: st' pick_effect_def c)
  ultimately show ?thesis by blast
qed

theorem captain_multiplier_witness:
  "counter totalPointsActive (snd (projr (first_pick_step captain_pick 1))) 3 = 8 \<and>
   fst (projr (first_pick_step captain_pick 1)) = 8 \<and>
   counter cappedPoints (snd (projr (first_pick_step captain_pick 1))) 3 = 8 \<and>
   totalCaptaincyPoints (snd (projr (first_pick_step captain_pick 1))) = 8"
proof -
  have found: "find (\<lambda>p. el_id p = pick_element captain_pick) (elements (demo_bootstrap 2))
                 = Some \<lparr>el_id = 3, el_web_name = ''Saka'', el_team = 1, el_element_type = 3\<rparr>"
    by (simp add: demo_defs)
  have summary: "get_element_summary two_weeks (pick_element captain_pick)
                 = Some \<lparr>history = two_weeks_history 3\<rparr>"
    by (simp add: demo_defs)
  have active: "pick_position captain_pick \<le> 11 \<or> active_chip plain_week = Some ''bboost''"
    by (simp add: demo_defs)
  have ok: "process_pick two_weeks (demo_bootstrap 2) 1 (active_chip plain_week = Some ''bboost'')
              (active_chip plain_week = Some ''3xc'') captain_pick (0, init_state 2 [])
            = Inr (fst (projr (first_pick_step captain_pick 1)),
                   snd (projr (first_pick_step captain_pick 1)))"
    by (simp add: first_pick_step_def model_defs demo_defs)
  have p: "4 = pointsThisWeek (history \<lparr>history = two_weeks_history 3\<rparr>) 1"
    by (simp add: model_defs demo_defs)
  have a: "8 = (if is_captain captain_pick
                then (if active_chip plain_week = Some ''3xc'' then 4 * 3 else 4 * 2) else (4::int))"
    by (simp add: demo_defs)
  show ?thesis
    using captain_multiplier [OF found summary active ok p a]
    by (simp add: counter_def init_state_def demo_defs)
qed


text \<open>
  Claim C4. For a processed pick the resolved score is added to \<open>totalPointsLostOnBench\<close>
  exactly when the squad position is above 11 and the week's chip is not bench boost
  (otherwise the total is unchanged); such a pick leaves the week's total, the season's
  active total, the position objects and every player's \<open>totalPointsActive\<close>,
  \<open>gwInSquad\<close> and \<open>starts\<close> as they were.
\<close>

theorem bench_loss:
  assumes found: "find (\<lambda>p. el_id p = pick_element pk) (elements playerData) = Some player"
      and summary: "get_element_summary w (pick_element pk) = Some summary"
      and ok: "process_pick w playerData gw (active_chip managerPicksData = Some ''bboost'')
                 (active_chip managerPicksData = Some ''3xc'') pk (gwPoints, st) = Inr (gwPoints', st')"
      and p: "p = pointsThisWeek (history summary) gw"
  shows "totalPointsLostOnBench st' = totalPointsLostOnBench st +
           (if 11 < pick_position pk \<and> active_chip managerPicksData \<noteq> Some ''bboost''
            then p else 0) \<and>
         (11 < pick_position pk \<and> active_chip managerPicksData \<noteq> Some ''bboost'' \<longrightarrow>
            gwPoints' = gwPoints \<and>
            totalPointsActiveAll st' = totalPointsActiveAll st \<and>
            positionPoints st' = positionPoints st \<and>
            (\<forall>q. counter totalPointsActive st' q = counter totalPointsActive st q) \<and>
            (\<forall>q. counter gwInSquad st' q = counter gwInSquad st q) \<and>
            (\<forall>q. counter starts st' q = counter starts st q))"
proof -
  let ?bb = "active_chip managerPicksData = Some ''bboost''"
  let ?tc = "active_chip managerPicksData = Some ''3xc''"
  from process_pick_Inr [OF ok found] summary obtain stats stat where
    stats: "ensure_stat playerData player (pick_element pk) (playerStats st) = Some stats"
    and stat: "map_of stats (pick_element pk) = Some stat"
    and g': "gwPoints' = gwPoints + contribution ?bb ?tc pk p"
    and st': "st' = pick_effect ?bb ?tc pk p stats stat st"
    unfolding p by auto
  have act: "active_pick ?bb pk \<longleftrightarrow> \<not> (11 < pick_position pk \<and> \<not> ?bb)"
    by (auto simp add: active_pick_def)
  note cs = ensure_stat_counters [OF stats stat]
  have bench: "totalPointsLostOnBench st' = totalPointsLostOnBench st +
           (if 11 < pick_position pk \<and> \<not> ?bb then p else 0)"
    by (simp add: st' pick_effect_def act)
  have rest: "gwPoints' = gwPoints \<and>
            totalPointsActiveAll st' = totalPointsActiveAll st \<and>
            positionPoints st' = positionPoints st \<and>
            (\<forall>q. counter totalPointsActive st' q = counter totalPointsActive st q) \<and>
            (\<forall>q. counter gwInSquad st' q = counter gwInSquad st q) \<and>
            (\<forall>q. counter starts st' q = counter starts st q)"
    if bench: "11 < pick_position pk \<and> \<not> ?bb"
  proof -
    have na: "\<not> active_pick ?bb pk" using bench act by simp
    have "gwPoints' = gwPoints" using g' na by (simp add: contribution_def)
    moreover have "totalPointsActiveAll st' = totalPointsActiveAll st"
      using na by (simp add: st' pick_effect_def contribution_def)
    moreover have "positionPoints st' = positionPoints st"
      using na by (simp add: st' pick_effect_def)
    moreover have "counter totalPointsActive st' q = counter totalPointsActive st q" for q
      using na by (simp add: st' counter_pick_effect [OF stats stat] pick_update_def cs)
    moreover have "counter gwInSquad st' q = counter gwInSquad st q" for q
      using na by (simp add: st' counter_pick_effect [OF stats stat] pick_update_def cs)
    moreover have "counter starts st' q = counter starts st q" for q
      using na by (simp add: st' counter_pick_effect [OF stats stat] pick_update_def cs)
    ultimately show ?thesis by blast
  qed
  show ?thesis using bench rest by blast
qed


theorem bench_loss_witness:
  "totalPointsLostOnBench (snd (projr (first_pick_step bench_pick 1))) = 2 \<and>
   fst (projr (first_pick_step bench_pick 1)) = 0 \<and>
   totalPointsActiveAll (snd (projr (first_pick_step bench_pick 1))) = 0 \<and>
   counter totalPointsActive (snd (projr (first_pick_step bench_pick 1))) 5 = 0 \<and>
   counter gwInSquad (snd (projr (first_pick_step bench_pick 1))) 5 = 0 \<and>
   counter starts (snd (projr (first_pick_step bench_pick 1))) 5 = 0"
proof -
  have found: "find (\<lambda>p. el_id p = pick_element bench_pick) (elements (demo_bootstrap 2))
                 = Some \<lparr>el_id = 5, el_web_name = ''Rice'', el_team = 1, el_element_type = 3\<rparr>"
    by (simp add: demo_defs)
  have summary: "get_element_summary two_weeks (pick_element bench_pick)
                 = Some \<lparr>history = two_weeks_history 5\<rparr>"
    by (simp add: demo_defs)
  have ok: "process_pick two_weeks (demo_bootstrap 2) 1 (active_chip plain_week = Some ''bboost'')
              (active_chip plain_week = Some ''3xc'') bench_pick (0, init_state 2 [])
            = Inr (fst (projr (first_pick_step bench_pick 1)),
                   snd (projr (first_pick_step bench_pick 1)))"
    by (simp add: first_pick_step_def model_defs demo_defs)
  have p: "2 = pointsThisWeek (history \<lparr>history = two_weeks_history 5\<rparr>) 1"
    by (simp add: model_defs demo_defs)
  show ?thesis
    using bench_loss [OF found summary ok p]
    by (simp add: counter_def init_state_def demo_defs)
qed

text \<open>
  Claim C5. When the player's history has no record for round \<open>gw\<close>, the resolved score
  is 0 and the pick is processed like any other, whatever its squad position and whatever
  chip is played: for a player whose bootstrap record is well formed (team index in range,
  element type in \<open>1..4\<close>; a stat stored earlier then has a position) the step does not
  throw; the player has a stat afterwards; the week's total, the player's \<open>playerPoints\<close>
  and \<open>totalPointsActive\<close> and the points lost on the bench stay as they were; \<open>starts\<close>
  goes up by one exactly for a squad position of at most 11; and \<open>gwInSquad\<close> goes up by
  one exactly when the pick is active, that is for a squad position of at most 11 or under
  bench boost. Whatever the bootstrap record, the step gives the very result it gives when
  the history does have a record for the round, with 0 points.
\<close>

theorem missing_round_scores_zero:
  assumes found: "find (\<lambda>p. el_id p = pick_element pk) (elements playerData) = Some player"
      and summary: "get_element_summary w (pick_element pk) = Some summary"
      and missing: "find (\<lambda>h. h_round h = gw) (history summary) = None"
      and team_ok: "1 \<le> el_team player \<and> el_team player \<le> length (teams playerData)"
      and type_ok: "1 \<le> el_element_type player \<and> el_element_type player \<le> 4"
      and stored_ok: "\<forall>s. map_of (playerStats st) (pick_element pk) = Some s \<longrightarrow> position s \<noteq> None"
  shows "pointsThisWeek (history summary) gw = 0 \<and>
         process_pick w playerData gw isBenchBoost isTripleCaptain pk (gwPoints, st)
           = process_pick (with_zero_round w (pick_element pk) gw) playerData gw
               isBenchBoost isTripleCaptain pk (gwPoints, st) \<and>
         (\<exists>gwPoints' st'.
            process_pick w playerData gw isBenchBoost isTripleCaptain pk (gwPoints, st)
              = Inr (gwPoints', st') \<and>
            gwPoints' = gwPoints \<and>
            map_of (playerStats st') (pick_element pk) \<noteq> None \<and>
            counter playerPoints st' (pick_element pk) = counter playerPoints st (pick_element pk) \<and>
            counter totalPointsActive st' (pick_element pk)
              = counter totalPointsActive st (pick_element pk) \<and>
            totalPointsLostOnBench st' = totalPointsLostOnBench st \<and>
            counter starts st' (pick_element pk)
              = counter starts st (pick_element pk) + (if pick_position pk \<le> 11 then 1 else 0) \<and>
            counter gwInSquad st' (pick_element pk)
              = counter gwInSquad st (pick_element pk)
                + (if pick_position pk \<le> 11 \<or> isBenchBoost then 1 else 0))"
proof -
  let ?pid = "pick_element pk"
  have zero: "pointsThisWeek (history summary) gw = 0"
    using missing by (simp add: pointsThisWeek_def)
  have "\<exists>stats. ensure_stat playerData player ?pid (playerStats st) = Some stats"
    using team_ok
    by (cases "map_of (playerStats st) ?pid = None")
       (simp_all add: ensure_stat_def new_player_stat_def)
  then obtain stats where stats: "ensure_stat playerData player ?pid (playerStats st) = Some stats"
    by blast
  obtain stat where stat: "map_of stats ?pid = Some stat"
    using ensure_stat_Some [OF stats] by blast
  have pos: "position stat \<noteq> None"
    using stats stat stored_ok type_ok
    by (auto simp add: ensure_stat_def new_player_stat_def position_of_def map_add_def
          split: if_splits option.splits)
  from process_pick_succeeds [OF found summary stats stat,
         where bb = isBenchBoost and tc = isTripleCaptain and gw = gw and g = gwPoints]
  obtain g' st' where
    ok: "process_pick w playerData gw isBenchBoost isTripleCaptain pk (gwPoints, st) = Inr (g', st')"
    using pos by blast
  from process_pick_Inr [OF ok found] summary stats stat
  have g': "g' = gwPoints + contribution isBenchBoost isTripleCaptain pk 0"
    and st': "st' = pick_effect isBenchBoost isTripleCaptain pk 0 stats stat st"
    using zero by auto
  note cs = ensure_stat_counters [OF stats stat]
  have "g' = gwPoints"
    using g' by (simp add: contribution_def activePoints_def)
  moreover have "map_of (playerStats st') ?pid \<noteq> None"
    using stat by (simp add: st' pick_effect_def map_of_map_entry_Some)
  moreover have "counter playerPoints st' ?pid = counter playerPoints st ?pid"
    by (simp add: st' counter_pick_effect [OF stats stat] pick_update_def credited_def cs)
  moreover have "counter totalPointsActive st' ?pid = counter totalPointsActive st ?pid"
    by (simp add: st' counter_pick_effect [OF stats stat] pick_update_def credited_def cs
          activePoints_def)
  moreover have "totalPointsLostOnBench st' = totalPointsLostOnBench st"
    by (simp add: st' pick_effect_def)
  moreover have "counter starts st' ?pid
                   = counter starts st ?pid + (if pick_position pk \<le> 11 then 1 else 0)"
    by (simp add: st' counter_pick_effect [OF stats stat] pick_update_def credited_def cs
          active_pick_def)
  moreover have "counter gwInSquad st' ?pid
                   = counter gwInSquad st ?pid
                     + (if pick_position pk \<le> 11 \<or> isBenchBoost then 1 else 0)"
    by (simp add: st' counter_pick_effect [OF stats stat] pick_update_def credited_def cs
          active_pick_def)
  ultimately show ?thesis
    using zero ok missing_round_like_zero_round [OF summary missing] by blast
qed

theorem missing_round_scores_zero_witness:
  "pointsThisWeek (two_weeks_history 3) 3 = 0 \<and>
   fst (projr (first_pick_step captain_pick 3)) = 0 \<and>
   counter playerPoints (snd (projr (first_pick_step captain_pick 3))) 3 = 0 \<and>
   counter starts (snd (projr (first_pick_step captain_pick 3))) 3 = 1 \<and>
   counter gwInSquad (snd (projr (first_pick_step captain_pick 3))) 3 = 1 \<and>
   pointsThisWeek (two_weeks_history 5) 2 = 0 \<and>
   fst (projr (boosted_pick_step bench_pick 2)) = 0 \<and>
   counter playerPoints (snd (projr (boosted_pick_step bench_pick 2))) 5 = 0 \<and>
   counter starts (snd (projr (boosted_pick_step bench_pick 2))) 5 = 0 \<and>
   counter gwInSquad (snd (projr (boosted_pick_step bench_pick 2))) 5 = 1"
proof -
  have found: "find (\<lambda>p. el_id p = pick_element captain_pick) (elements (demo_bootstrap 2))
                 = Some \<lparr>el_id = 3, el_web_name = ''Saka'', el_team = 1, el_element_type = 3\<rparr>"
    by (simp add: demo_defs)
  have summary: "get_element_summary two_weeks (pick_element captain_pick)
                 = Some \<lparr>history = two_weeks_history 3\<rparr>"
    by (simp add: demo_defs)
  have missing: "find (\<lambda>h. h_round h = 3) (history \<lparr>history = two_weeks_history 3\<rparr>) = None"
    by (simp add: demo_defs)
  have team_ok: "1 \<le> el_team \<lparr>el_id = 3, el_web_name = ''Saka'', el_team = 1, el_element_type = 3\<rparr>
       \<and> el_team \<lparr>el_id = 3, el_web_name = ''Saka'', el_team = 1, el_element_type = 3\<rparr>
           \<le> length (teams (demo_bootstrap 2))"
    by (simp add: demo_defs)
  have type_ok: "1 \<le> el_element_type \<lparr>el_id = 3, el_web_name = ''Saka'', el_team = 1, el_element_type = 3\<rparr>
       \<and> el_element_type \<lparr>el_id = 3, el_web_name = ''Saka'', el_team = 1, el_element_type = 3\<rparr> \<le> 4"
    by simp
  have stored_ok: "\<forall>s. map_of (playerStats (init_state 2 [])) (pick_element captain_pick) = Some s
                      \<longrightarrow> position s \<noteq> None"
    by (simp add: init_state_def)
  note inst = missing_round_scores_zero [OF found summary missing team_ok type_ok stored_ok,
            where isBenchBoost = "active_chip plain_week = Some ''bboost''"
              and isTripleCaptain = "active_chip plain_week = Some ''3xc''" and gwPoints = 0]
  from inst have zero: "pointsThisWeek (history \<lparr>history = two_weeks_history 3\<rparr>) 3 = 0"
    by blast
  from inst obtain g' st' where
    ok: "process_pick two_weeks (demo_bootstrap 2) 3 (active_chip plain_week = Some ''bboost'')
           (active_chip plain_week = Some ''3xc'') captain_pick (0, init_state 2 []) = Inr (g', st')"
    and g': "g' = 0"
    and pp: "counter playerPoints st' (pick_element captain_pick)
               = counter playerPoints (init_state 2 []) (pick_element captain_pick)"
    and starts: "counter starts st' (pick_element captain_pick)
                 = counter starts (init_state 2 []) (pick_element captain_pick)
                   + (if pick_position captain_pick \<le> 11 then 1 else 0)"
    and squad: "counter gwInSquad st' (pick_element captain_pick)
                 = counter gwInSquad (init_state 2 []) (pick_element captain_pick)
                   + (if pick_position captain_pick \<le> 11
                         \<or> active_chip plain_week = Some ''bboost'' then 1 else 0)"
    by blast
  have step: "first_pick_step captain_pick 3 = Inr (g', st')"
    using ok by (simp add: first_pick_step_def)
  have first: "pointsThisWeek (two_weeks_history 3) 3 = 0 \<and>
   fst (projr (first_pick_step captain_pick 3)) = 0 \<and>
   counter playerPoints (snd (projr (first_pick_step captain_pick 3))) 3 = 0 \<and>
   counter starts (snd (projr (first_pick_step captain_pick 3))) 3 = 1 \<and>
   counter gwInSquad (snd (projr (first_pick_step captain_pick 3))) 3 = 1"
    using step zero g' pp starts squad
    by (simp add: counter_def init_state_def captain_pick_def plain_week_def)
  have bfound: "find (\<lambda>p. el_id p = pick_element bench_pick) (elements (demo_bootstrap 2))
                 = Some \<lparr>el_id = 5, el_web_name = ''Rice'', el_team = 1, el_element_type = 3\<rparr>"
    by (simp add: demo_defs)
  have bsummary: "get_element_summary two_weeks (pick_element bench_pick)
                 = Some \<lparr>history = two_weeks_history 5\<rparr>"
    by (simp add: demo_defs)
  have bmissing: "find (\<lambda>h. h_round h = 2) (history \<lparr>history = two_weeks_history 5\<rparr>) = None"
    by (simp add: demo_defs)
  have bteam_ok: "1 \<le> el_team \<lparr>el_id = 5, el_web_name = ''Rice'', el_team = 1, el_element_type = 3\<rparr>
       \<and> el_team \<lparr>el_id = 5, el_web_name = ''Rice'', el_team = 1, el_element_type = 3\<rparr>
           \<le> length (teams (demo_bootstrap 2))"
    by (simp add: demo_defs)
  have btype_ok: "1 \<le> el_element_type \<lparr>el_id = 5, el_web_name = ''Rice'', el_team = 1, el_element_type = 3\<rparr>
       \<and> el_element_type \<lparr>el_id = 5, el_web_name = ''Rice'', el_team = 1, el_element_type = 3\<rparr> \<le> 4"
    by simp
  have bstored_ok: "\<forall>s. map_of (playerStats (init_state 2 [])) (pick_element bench_pick) = Some s
                      \<longrightarrow> position s \<noteq> None"
    by (simp add: init_state_def)
  note binst = missing_round_scores_zero [OF bfound bsummary bmissing bteam_ok btype_ok bstored_ok,
            where isBenchBoost = "active_chip bench_boost_week = Some ''bboost''"
              and isTripleCaptain = "active_chip bench_boost_week = Some ''3xc''" and gwPoints = 0]
  from binst have bzero: "pointsThisWeek (history \<lparr>history = two_weeks_history 5\<rparr>) 2 = 0"
    by blast
  from binst obtain h' su' where
    bok: "process_pick two_weeks (demo_bootstrap 2) 2 (active_chip bench_boost_week = Some ''bboost'')
           (active_chip bench_boost_week = Some ''3xc'') bench_pick (0, init_state 2 []) = Inr (h', su')"
    and h': "h' = 0"
    and bpp: "counter playerPoints su' (pick_element bench_pick)
               = counter playerPoints (init_state 2 []) (pick_element bench_pick)"
    and bstarts: "counter starts su' (pick_element bench_pick)
                 = counter starts (init_state 2 []) (pick_element bench_pick)
                   + (if pick_position bench_pick \<le> 11 then 1 else 0)"
    and bsquad: "counter gwInSquad su' (pick_element bench_pick)
                 = counter gwInSquad (init_state 2 []) (pick_element bench_pick)
                   + (if pick_position bench_pick \<le> 11
                         \<or> active_chip bench_boost_week = Some ''bboost'' then 1 else 0)"
    by blast
  have bstep: "boosted_pick_step bench_pick 2 = Inr (h', su')"
    using bok by (simp add: boosted_pick_step_def)
  have second: "pointsThisWeek (two_weeks_history 5) 2 = 0 \<and>
   fst (projr (boosted_pick_step bench_pick 2)) = 0 \<and>
   counter playerPoints (snd (projr (boosted_pick_step bench_pick 2))) 5 = 0 \<and>
   counter starts (snd (projr (boosted_pick_step bench_pick 2))) 5 = 0 \<and>
   counter gwInSquad (snd (projr (boosted_pick_step bench_pick 2))) 5 = 1"
    using bstep bzero h' bpp bstarts bsquad
    by (simp add: counter_def init_state_def bench_pick_def bench_boost_week_def)
  show ?thesis using first second by blast
qed

section \<open>Claims about a whole run\<close>

lemma sum_list_map_entry:
  fixes h :: "'v \<Rightarrow> int"
  assumes "map_of xs k = Some v"
  shows "sum_list (map (\<lambda>kv. h (snd kv)) (AList.map_entry k f xs))
           = sum_list (map (\<lambda>kv. h (snd kv)) xs) - h v + h (f v)"
  using assms by (induction xs) (auto split: if_splits)

lemma sum_list_update_zero:
  fixes xs :: "int list"
  assumes "i < length xs" and "xs ! i = 0"
  shows "sum_list (xs[i := v]) = sum_list xs + v"
  using assms
proof (induction xs arbitrary: i)
  case Nil
  then show ?case by simp
next
  case (Cons x xs)
  then show ?case by (cases i) simp_all
qed

lemma active_total_ensure_stat:
  assumes "ensure_stat pd player pid stats = Some stats'"
  shows "active_total stats' = active_total stats"
  using assms
  by (auto simp add: ensure_stat_def active_total_def new_player_stat_def split: if_splits)

lemma active_total_pick_effect:
  assumes stats: "ensure_stat pd player (pick_element pk) (playerStats st) = Some stats"
      and stat: "map_of stats (pick_element pk) = Some stat"
  shows "active_total (playerStats (pick_effect bb tc pk p stats stat st))
           = active_total (playerStats st) + contribution bb tc pk p"
proof -
  have "active_total (playerStats (pick_effect bb tc pk p stats stat st))
          = active_total stats - totalPointsActive stat
            + totalPointsActive (pick_update (active_pick bb pk) (pick_position pk \<le> 11)
                (is_captain pk) p (activePoints (is_captain pk) tc p) stat)"
    by (simp add: pick_effect_def active_total_def sum_list_map_entry [OF stat])
  also have "\<dots> = active_total stats + contribution bb tc pk p"
    by (simp add: pick_update_def credited_def contribution_def)
  finally show ?thesis by (simp add: active_total_ensure_stat [OF stats])
qed

lemma process_pick_active_total:
  assumes "process_pick w pd gw bb tc pk (g, st) = Inr (g', st')"
  shows "active_total (playerStats st') - g' = active_total (playerStats st) - g
         \<and> totalPointsActiveAll st' - g' = totalPointsActiveAll st - g
         \<and> weeklyPoints st' = weeklyPoints st"
  using assms
proof (cases rule: process_pick_cases)
  case skip
  then show ?thesis by simp
next
  case (hit player summ stats stat)
  then show ?thesis
    by (simp add: active_total_pick_effect [OF hit(3) hit(4)]) (simp add: pick_effect_def)
qed

lemma process_picks_active_total:
  assumes "process_picks w pd gw bb tc pks (g, st) = Inr (g', st')"
  shows "active_total (playerStats st') - g' = active_total (playerStats st) - g
         \<and> totalPointsActiveAll st' - g' = totalPointsActiveAll st - g
         \<and> weeklyPoints st' = weeklyPoints st"
proof -
  let ?P = "\<lambda>a. active_total (playerStats (snd a)) - fst a = active_total (playerStats st) - g
         \<and> totalPointsActiveAll (snd a) - fst a = totalPointsActiveAll st - g
         \<and> weeklyPoints (snd a) = weeklyPoints st"
  have "?P (g', st')"
  proof (rule process_picks_preserves [OF assms, where P = ?P])
    show "?P (g, st)" by simp
  next
    fix pk a a'
    assume "?P a" and step: "process_pick w pd gw bb tc pk a = Inr a'"
    then show "?P a'"
      using process_pick_active_total [of w pd gw bb tc pk "fst a" "snd a" "fst a'" "snd a'"]
      by simp
  qed
  then show ?thesis by simp
qed

lemma track_extrema_frame [simp]:
  "playerStats (track_extrema gw g r st) = playerStats st"
  "weeklyPoints (track_extrema gw g r st) = weeklyPoints st"
  "weeklyRanks (track_extrema gw g r st) = weeklyRanks st"
  "totalPointsActiveAll (track_extrema gw g r st) = totalPointsActiveAll st"
  "totalPointsLostOnBench (track_extrema gw g r st) = totalPointsLostOnBench st"
  "totalCaptaincyPoints (track_extrema gw g r st) = totalCaptaincyPoints st"
  "positionPoints (track_extrema gw g r st) = positionPoints st"
  "calls (track_extrema gw g r st) = calls st"
  by (simp_all add: track_extrema_def Let_def)

lemma weekly_sum_inv_step:
  assumes le: "gw \<le> G" and inv: "weekly_sum_inv G gw st"
      and step: "process_gameweek w m pd hist gw st = Inr st'"
  shows "weekly_sum_inv G (Suc gw) st'"
proof -
  from step obtain mpd g st2 where
    "get_picks w m gw = Some mpd" and
    picks: "process_picks w pd gw (active_chip mpd = Some ''bboost'') (active_chip mpd = Some ''3xc'')
       (picks mpd) (0, st\<lparr>calls := calls st @ [GetPicks m gw]\<rparr>) = Inr (g, st2)"
    and st': "st' = track_extrema gw g (gwRank_of hist gw)
             (st2\<lparr> weeklyPoints := (weeklyPoints st2)[gw - 1 := g],
                   weeklyRanks := (weeklyRanks st2)[gw - 1 := gwRank_of hist gw] \<rparr>)"
    by (rule process_gameweek_Inr)
  from process_picks_active_total [OF picks]
  have at: "active_total (playerStats st2) = active_total (playerStats st) + g"
    and all: "totalPointsActiveAll st2 = totalPointsActiveAll st + g"
    and wp: "weeklyPoints st2 = weeklyPoints st"
    by simp_all
  have gw1: "1 \<le> gw" and len: "length (weeklyPoints st) = G"
    and zero: "\<forall>i. gw - 1 \<le> i \<and> i < G \<longrightarrow> weeklyPoints st ! i = 0"
    and sum: "sum_list (weeklyPoints st) = active_total (playerStats st)"
    and tot: "totalPointsActiveAll st = active_total (playerStats st)"
    using inv by (simp_all add: weekly_sum_inv_def)
  have idx: "gw - 1 < length (weeklyPoints st)" using gw1 le len by simp
  have z: "weeklyPoints st ! (gw - 1) = 0" using zero idx len by simp
  have "sum_list (weeklyPoints st') = sum_list (weeklyPoints st) + g"
    using sum_list_update_zero [OF idx z, of g] by (simp add: st' wp)
  moreover have "\<forall>i. Suc gw - 1 \<le> i \<and> i < G \<longrightarrow> weeklyPoints st' ! i = 0"
    using zero gw1 by (auto simp add: st' wp)
  ultimately show ?thesis
    using len sum tot at all by (simp add: weekly_sum_inv_def st' wp)
qed

lemma mset_object_values: "mset (object_values obj) = image_mset snd (mset obj)"
  by (simp add: object_values_def flip: image_mset_union)

lemma sum_list_sort_desc_object_values:
  fixes f :: "'v \<Rightarrow> int"
  shows "sum_list (map f (sort_desc key (object_values obj))) = sum_list (map (\<lambda>kv. f (snd kv)) obj)"
proof -
  have "mset (map f (sort_desc key (object_values obj))) = mset (map (\<lambda>kv. f (snd kv)) obj)"
    by (simp add: sort_desc_def mset_object_values multiset.map_comp comp_def)
  then have "sum_mset (mset (map f (sort_desc key (object_values obj))))
             = sum_mset (mset (map (\<lambda>kv. f (snd kv)) obj))"
    by (rule arg_cong)
  then show ?thesis by (simp only: sum_mset_sum_list)
qed

text \<open>
  Claim C3. When the gameweek loop has completed, the entries of \<open>weeklyPoints\<close> in the
  report sum to the same value as \<open>totalPointsActive\<close> summed over the report's
  \<open>playerStats\<close>.
\<close>

theorem weekly_points_sum:
  assumes "analysis_of (analyze_manager w managerId) = Some a"
  shows "sum_list (an_weeklyPoints a) = sum_list (map totalPointsActive (an_playerStats a))"
proof -
  from assms obtain r where run: "accumulate w managerId = Inr r" and a: "a = report r"
    by (auto simp add: analyze_manager_report)
  from run obtain pd issued where
    loop: "gameweek_loop w managerId pd (acc_historyData r) (acc_currentGameweek r) 1
       (init_state (acc_currentGameweek r) issued) = Inr (acc_state r)"
    by (rule accumulate_Inr)
  have "weekly_sum_inv (acc_currentGameweek r) 1 (init_state (acc_currentGameweek r) issued)"
    by (simp add: weekly_sum_inv_def init_state_def active_total_def sum_list_replicate)
  from gameweek_loop_invariant [OF loop, where I = "weekly_sum_inv (acc_currentGameweek r)", OF this]
  have "weekly_sum_inv (acc_currentGameweek r) (max 1 (Suc (acc_currentGameweek r))) (acc_state r)"
    using weekly_sum_inv_step by blast
  then have "sum_list (weeklyPoints (acc_state r)) = active_total (playerStats (acc_state r))"
    by (simp add: weekly_sum_inv_def)
  then show ?thesis
    by (simp add: a report_def assemble_def sum_list_sort_desc_object_values active_total_def)
qed

theorem weekly_points_sum_witness:
  "an_weeklyPoints (the (analysis_of (analyze_manager two_weeks ''1''))) = [8, 12] \<and>
   map totalPointsActive (an_playerStats (the (analysis_of (analyze_manager two_weeks ''1''))))
     = [20, 0] \<and>
   sum_list (an_weeklyPoints (the (analysis_of (analyze_manager two_weeks ''1''))))
     = sum_list (map totalPointsActive
         (an_playerStats (the (analysis_of (analyze_manager two_weeks ''1'')))))"
proof -
  have run: "analysis_of (analyze_manager two_weeks ''1'')
               = Some (the (analysis_of (analyze_manager two_weeks ''1'')))"
    by (simp add: model_defs demo_defs)
  have "an_weeklyPoints (the (analysis_of (analyze_manager two_weeks ''1''))) = [8, 12]"
    by (simp add: model_defs demo_defs replicate_numeral_Cons)
  moreover have "map totalPointsActive
                   (an_playerStats (the (analysis_of (analyze_manager two_weeks ''1'')))) = [20, 0]"
    by (simp add: model_defs demo_defs)
  ultimately show ?thesis
    using weekly_points_sum [OF run] by simp
qed

lemma tracks_max_snoc:
  assumes "tracks_max xs v gw"
  shows "tracks_max (xs @ [g]) (if v < g then g else v) (if v < g then Suc (length xs) else gw)"
proof (cases "list_ex (\<lambda>x. 0 < x) xs")
  case True
  then have em: "earliest_max xs gw v" using assms by (simp add: tracks_max_def)
  then have gw: "1 \<le> gw" "gw \<le> length xs" by (simp_all add: earliest_max_def)
  show ?thesis
  proof (cases "v < g")
    case True
    have "list_all (\<lambda>x. x < g) xs"
      using em True by (auto simp add: earliest_max_def list_all_iff)
    then show ?thesis using True \<open>list_ex (\<lambda>x. 0 < x) xs\<close>
      by (auto simp add: tracks_max_def earliest_max_def list_all_iff)
  next
    case False
    then show ?thesis using em gw True
      by (auto simp add: tracks_max_def earliest_max_def nth_append)
  qed
next
  case False
  then have v: "v = 0" "gw = 0" using assms by (simp_all add: tracks_max_def)
  have le: "list_all (\<lambda>x. x \<le> 0) xs" using False by (auto simp add: list_all_iff list_ex_iff)
  show ?thesis
  proof (cases "0 < g")
    case True
    then have "list_all (\<lambda>x. x < g) xs" using le by (auto simp add: list_all_iff)
    then show ?thesis using True v
      by (auto simp add: tracks_max_def earliest_max_def list_all_iff)
  next
    case False
    then show ?thesis using v \<open>\<not> list_ex (\<lambda>x. 0 < x) xs\<close>
      by (simp add: tracks_max_def)
  qed
qed

lemma tracks_min_snoc:
  assumes "tracks_min xs v gw"
  shows "tracks_min (xs @ [g]) (if lt_jsnum g v then Num g else v)
           (if lt_jsnum g v then Suc (length xs) else gw)"
proof (cases v)
  case Infinity
  then show ?thesis using assms by (simp add: tracks_min_def earliest_min_def)
next
  case (Num m)
  then have em: "earliest_min xs gw m" using assms by (simp add: tracks_min_def)
  then have gw: "1 \<le> gw" "gw \<le> length xs" by (simp_all add: earliest_min_def)
  show ?thesis
  proof (cases "g < m")
    case True
    have "list_all (\<lambda>x. g < x) xs"
      using em True by (auto simp add: earliest_min_def list_all_iff)
    then show ?thesis using True Num
      by (auto simp add: tracks_min_def earliest_min_def list_all_iff)
  next
    case False
    then show ?thesis using em gw Num
      by (auto simp add: tracks_min_def earliest_min_def nth_append)
  qed
qed

lemma take_update_last:
  "n < length xs \<Longrightarrow> take (Suc n) (xs[n := v]) = take n xs @ [v]"
  by (simp add: take_Suc_conv_app_nth)

lemma process_pick_frame:
  assumes "process_pick w pd gw bb tc pk (g, st) = Inr (g', st')"
  shows "weeklyPoints st' = weeklyPoints st \<and> weeklyRanks st' = weeklyRanks st \<and>
         highestPoints st' = highestPoints st \<and> highestPointsGW st' = highestPointsGW st \<and>
         lowestPoints st' = lowestPoints st \<and> lowestPointsGW st' = lowestPointsGW st \<and>
         highestRank st' = highestRank st \<and> highestRankGW st' = highestRankGW st \<and>
         lowestRank st' = lowestRank st \<and> lowestRankGW st' = lowestRankGW st"
  using assms by (cases rule: process_pick_cases) (simp_all add: pick_effect_def)

lemma process_picks_frame:
  assumes "process_picks w pd gw bb tc pks (g, st) = Inr (g', st')"
  shows "weeklyPoints st' = weeklyPoints st \<and> weeklyRanks st' = weeklyRanks st \<and>
         highestPoints st' = highestPoints st \<and> highestPointsGW st' = highestPointsGW st \<and>
         lowestPoints st' = lowestPoints st \<and> lowestPointsGW st' = lowestPointsGW st \<and>
         highestRank st' = highestRank st \<and> highestRankGW st' = highestRankGW st \<and>
         lowestRank st' = lowestRank st \<and> lowestRankGW st' = lowestRankGW st"
proof -
  let ?P = "\<lambda>a. weeklyPoints (snd a) = weeklyPoints st \<and> weeklyRanks (snd a) = weeklyRanks st \<and>
         highestPoints (snd a) = highestPoints st \<and> highestPointsGW (snd a) = highestPointsGW st \<and>
         lowestPoints (snd a) = lowestPoints st \<and> lowestPointsGW (snd a) = lowestPointsGW st \<and>
         highestRank (snd a) = highestRank st \<and> highestRankGW (snd a) = highestRankGW st \<and>
         lowestRank (snd a) = lowestRank st \<and> lowestRankGW (snd a) = lowestRankGW st"
  have "?P (g', st')"
  proof (rule process_picks_preserves [OF assms, where P = ?P])
    show "?P (g, st)" by simp
  next
    fix pk a a'
    assume "?P a" and step: "process_pick w pd gw bb tc pk a = Inr a'"
    then show "?P a'"
      using process_pick_frame [of w pd gw bb tc pk "fst a" "snd a" "fst a'" "snd a'"]
      by simp
  qed
  then show ?thesis by simp
qed

lemma track_extrema_fields:
  "highestPoints (track_extrema gw g r st) = (if highestPoints st < g then g else highestPoints st)"
  "highestPointsGW (track_extrema gw g r st) = (if highestPoints st < g then gw else highestPointsGW st)"
  "lowestPoints (track_extrema gw g r st)
     = (if lt_jsnum g (lowestPoints st) then Num g else lowestPoints st)"
  "lowestPointsGW (track_extrema gw g r st)
     = (if lt_jsnum g (lowestPoints st) then gw else lowestPointsGW st)"
  "highestRank (track_extrema gw g r st)
     = (if lt_jsnum r (highestRank st) then Num r else highestRank st)"
  "highestRankGW (track_extrema gw g r st)
     = (if lt_jsnum r (highestRank st) then gw else highestRankGW st)"
  "lowestRank (track_extrema gw g r st) = (if lowestRank st < r then r else lowestRank st)"
  "lowestRankGW (track_extrema gw g r st) = (if lowestRank st < r then gw else lowestRankGW st)"
  by (simp_all add: track_extrema_def Let_def)

lemma extrema_inv_step:
  assumes le: "gw \<le> G" and inv: "extrema_inv hist G gw st"
      and step: "process_gameweek w m pd hist gw st = Inr st'"
  shows "extrema_inv hist G (Suc gw) st'"
proof -
  from step obtain mpd g st2 where
    "get_picks w m gw = Some mpd" and
    picks: "process_picks w pd gw (active_chip mpd = Some ''bboost'') (active_chip mpd = Some ''3xc'')
       (picks mpd) (0, st\<lparr>calls := calls st @ [GetPicks m gw]\<rparr>) = Inr (g, st2)"
    and st': "st' = track_extrema gw g (gwRank_of hist gw)
             (st2\<lparr> weeklyPoints := (weeklyPoints st2)[gw - 1 := g],
                   weeklyRanks := (weeklyRanks st2)[gw - 1 := gwRank_of hist gw] \<rparr>)"
    by (rule process_gameweek_Inr)
  note fr = process_picks_frame [OF picks, simplified]
  have gw1: "1 \<le> gw" and lp: "length (weeklyPoints st) = G" and lr: "length (weeklyRanks st) = G"
    and ranks: "take (gw - 1) (weeklyRanks st) = map (gwRank_of hist) [1..<gw]"
    and hp: "tracks_max (take (gw - 1) (weeklyPoints st)) (highestPoints st) (highestPointsGW st)"
    and lpnt: "tracks_min (take (gw - 1) (weeklyPoints st)) (lowestPoints st) (lowestPointsGW st)"
    and hr: "tracks_min (take (gw - 1) (weeklyRanks st)) (highestRank st) (highestRankGW st)"
    and lrk: "tracks_max (take (gw - 1) (weeklyRanks st)) (lowestRank st) (lowestRankGW st)"
    using inv unfolding extrema_inv_def by blast+
  obtain n where n: "gw = Suc n" using gw1 by (cases gw) simp_all
  have nP: "n < length (weeklyPoints st)" and nR: "n < length (weeklyRanks st)"
    using le n lp lr by simp_all
  have tp: "take (Suc n) (weeklyPoints st') = take n (weeklyPoints st) @ [g]"
    by (simp add: st' fr n take_update_last [OF nP])
  have tr: "take (Suc n) (weeklyRanks st') = take n (weeklyRanks st) @ [gwRank_of hist gw]"
    by (simp add: st' fr n take_update_last [OF nR])
  have ln: "length (take n (weeklyPoints st)) = n" "length (take n (weeklyRanks st)) = n"
    using nP nR by simp_all
  have hp': "tracks_max (take n (weeklyPoints st)) (highestPoints st) (highestPointsGW st)"
    and lpnt': "tracks_min (take n (weeklyPoints st)) (lowestPoints st) (lowestPointsGW st)"
    and hr': "tracks_min (take n (weeklyRanks st)) (highestRank st) (highestRankGW st)"
    and lrk': "tracks_max (take n (weeklyRanks st)) (lowestRank st) (lowestRankGW st)"
    using hp lpnt hr lrk n by simp_all
  have f: "highestPoints st' = (if highestPoints st < g then g else highestPoints st)"
    "highestPointsGW st' = (if highestPoints st < g then Suc n else highestPointsGW st)"
    "lowestPoints st' = (if lt_jsnum g (lowestPoints st) then Num g else lowestPoints st)"
    "lowestPointsGW st' = (if lt_jsnum g (lowestPoints st) then Suc n else lowestPointsGW st)"
    "highestRank st' = (if lt_jsnum (gwRank_of hist gw) (highestRank st)
                        then Num (gwRank_of hist gw) else highestRank st)"
    "highestRankGW st' = (if lt_jsnum (gwRank_of hist gw) (highestRank st)
                          then Suc n else highestRankGW st)"
    "lowestRank st' = (if lowestRank st < gwRank_of hist gw
                       then gwRank_of hist gw else lowestRank st)"
    "lowestRankGW st' = (if lowestRank st < gwRank_of hist gw then Suc n else lowestRankGW st)"
    by (simp_all add: st' track_extrema_fields fr n)
  have "tracks_max (take (Suc n) (weeklyPoints st')) (highestPoints st') (highestPointsGW st')"
    unfolding tp f using tracks_max_snoc [OF hp', of g] by (simp only: ln)
  moreover
  have "tracks_min (take (Suc n) (weeklyPoints st')) (lowestPoints st') (lowestPointsGW st')"
    unfolding tp f using tracks_min_snoc [OF lpnt', of g] by (simp only: ln)
  moreover
  have "tracks_min (take (Suc n) (weeklyRanks st')) (highestRank st') (highestRankGW st')"
    unfolding tr f using tracks_min_snoc [OF hr', of "gwRank_of hist gw"] by (simp only: ln)
  moreover
  have "tracks_max (take (Suc n) (weeklyRanks st')) (lowestRank st') (lowestRankGW st')"
    unfolding tr f using tracks_max_snoc [OF lrk', of "gwRank_of hist gw"] by (simp only: ln)
  moreover
  have "take (Suc n) (weeklyRanks st') = map (gwRank_of hist) [1..<Suc gw]"
    using ranks by (simp add: tr n)
  moreover have "length (weeklyPoints st') = G" "length (weeklyRanks st') = G"
    using lp lr by (simp_all add: st' fr)
  ultimately show ?thesis
    using le by (simp add: extrema_inv_def n)
qed

lemma extrema_inv_init: "extrema_inv hist G 1 (init_state G issued)"
  by (simp add: extrema_inv_def init_state_def tracks_max_def tracks_min_def)

lemma accumulate_extrema:
  assumes "accumulate w managerId = Inr r"
  shows "extrema_inv (acc_historyData r) (acc_currentGameweek r) (Suc (acc_currentGameweek r))
           (acc_state r)"
proof -
  from assms obtain pd issued where
    loop: "gameweek_loop w managerId pd (acc_historyData r) (acc_currentGameweek r) 1
       (init_state (acc_currentGameweek r) issued) = Inr (acc_state r)"
    by (rule accumulate_Inr)
  from gameweek_loop_invariant [OF loop,
         where I = "extrema_inv (acc_historyData r) (acc_currentGameweek r)", OF extrema_inv_init]
  have "extrema_inv (acc_historyData r) (acc_currentGameweek r)
          (max 1 (Suc (acc_currentGameweek r))) (acc_state r)"
    using extrema_inv_step by blast
  then show ?thesis by simp
qed

lemma accumulate_final:
  assumes "accumulate w managerId = Inr r"
  shows "length (weeklyRanks (acc_state r)) = acc_currentGameweek r"
    and "weeklyRanks (acc_state r) = map (gwRank_of (acc_historyData r)) [1..<Suc (acc_currentGameweek r)]"
    and "tracks_max (weeklyPoints (acc_state r)) (highestPoints (acc_state r))
           (highestPointsGW (acc_state r))"
    and "tracks_min (weeklyPoints (acc_state r)) (lowestPoints (acc_state r))
           (lowestPointsGW (acc_state r))"
    and "tracks_min (weeklyRanks (acc_state r)) (highestRank (acc_state r))
           (highestRankGW (acc_state r))"
    and "tracks_max (weeklyRanks (acc_state r)) (lowestRank (acc_state r))
           (lowestRankGW (acc_state r))"
proof -
  let ?st = "acc_state r" and ?G = "acc_currentGameweek r" and ?hist = "acc_historyData r"
  from accumulate_extrema [OF assms]
  have inv: "extrema_inv ?hist ?G (Suc ?G) ?st" .
  then have lp: "length (weeklyPoints ?st) = ?G" and lr: "length (weeklyRanks ?st) = ?G"
    and ranks: "take (Suc ?G - 1) (weeklyRanks ?st) = map (gwRank_of ?hist) [1..<Suc ?G]"
    and hp: "tracks_max (take (Suc ?G - 1) (weeklyPoints ?st)) (highestPoints ?st) (highestPointsGW ?st)"
    and lpnt: "tracks_min (take (Suc ?G - 1) (weeklyPoints ?st)) (lowestPoints ?st) (lowestPointsGW ?st)"
    and hr: "tracks_min (take (Suc ?G - 1) (weeklyRanks ?st)) (highestRank ?st) (highestRankGW ?st)"
    and lrk: "tracks_max (take (Suc ?G - 1) (weeklyRanks ?st)) (lowestRank ?st) (lowestRankGW ?st)"
    unfolding extrema_inv_def by blast+
  have tp: "take (Suc ?G - 1) (weeklyPoints ?st) = weeklyPoints ?st" using lp by simp
  have tr: "take (Suc ?G - 1) (weeklyRanks ?st) = weeklyRanks ?st" using lr by simp
  show "length (weeklyRanks ?st) = ?G" by (rule lr)
  show "weeklyRanks ?st = map (gwRank_of ?hist) [1..<Suc ?G]" using ranks unfolding tr .
  show "tracks_max (weeklyPoints ?st) (highestPoints ?st) (highestPointsGW ?st)"
    using hp unfolding tp .
  show "tracks_min (weeklyPoints ?st) (lowestPoints ?st) (lowestPointsGW ?st)"
    using lpnt unfolding tp .
  show "tracks_min (weeklyRanks ?st) (highestRank ?st) (highestRankGW ?st)"
    using hr unfolding tr .
  show "tracks_max (weeklyRanks ?st) (lowestRank ?st) (lowestRankGW ?st)"
    using lrk unfolding tr .
qed

lemma toLocaleString_0: "toLocaleString 0 = ''0''"
  by (simp add: toLocaleString_def decimal.simps)

lemma gwRank_of_missing:
  assumes "season_record_of hist gw = None
           \<or> (\<exists>h. season_record_of hist gw = Some h \<and> overall_rank h = None)"
  shows "gwRank_of hist gw = 0"
  using assms by (auto simp add: gwRank_of_def)

text \<open>
  What the loop leaves in the four pairs of running extremes. Each is replaced only on a
  strict improvement. \<open>lowestPoints\<close> and \<open>highestRank\<close> start at \<^verbatim>\<open>Infinity\<close>, which
  every weekly value improves on, so they end as the least weekly value with the first
  gameweek that has it. \<open>highestPoints\<close> and \<open>lowestRank\<close> start at \<open>0\<close> with gameweek
  \<open>0\<close>, which only a positive weekly value improves on.
\<close>

lemma reported_extrema:
  assumes "analysis_of (analyze_manager w managerId) = Some a"
  shows "tracks_max (an_weeklyPoints a) (mi_highestPoints (an_managerInfo a))
           (mi_highestPointsGW (an_managerInfo a)) \<and>
         tracks_min (an_weeklyPoints a) (mi_lowestPoints (an_managerInfo a))
           (mi_lowestPointsGW (an_managerInfo a)) \<and>
         (\<exists>best. mi_highestRank (an_managerInfo a) = toLocaleString_jsnum best \<and>
            tracks_min (an_weeklyRanks a) best (mi_highestRankGW (an_managerInfo a))) \<and>
         (\<exists>worst. mi_lowestRank (an_managerInfo a) = toLocaleString worst \<and>
            tracks_max (an_weeklyRanks a) worst (mi_lowestRankGW (an_managerInfo a)))"
proof -
  from assms obtain r where run: "accumulate w managerId = Inr r" and a: "a = report r"
    by (auto simp add: analyze_manager_report)
  show ?thesis
    using accumulate_final (3-6) [OF run] by (auto simp add: a report_def assemble_def)
qed

text \<open>
  Claim C6 does not hold of the handler. In a season of seven gameweeks whose weekly totals
  are \<open>-1, -1, 0, -2, -1, -1, 0\<close> the gameweeks 3 and 7 both have the season's highest
  points, 0, and the earliest of them is gameweek 3 (\<open>earliest_max\<close>); the report has
  \<open>highestPointsGW = 0\<close>, which is no gameweek at all. The running maximum starts at \<open>0\<close>
  with gameweek \<open>0\<close> and is replaced only by a greater total, so a highest total of \<open>0\<close>
  is never recorded. The running minimum of the same loop starts at \<^verbatim>\<open>Infinity\<close> and does
  what the claim says: the lowest total \<open>-2\<close> is reported with its gameweek 4
  (\<open>earliest_min\<close>).
\<close>

theorem highest_points_gameweek_not_recorded:
  "an_weeklyPoints (the (analysis_of (analyze_manager (seven_weeks [- 1, - 1, 0, - 2, - 1, - 1, 0]) ''1'')))
     = [- 1, - 1, 0, - 2, - 1, - 1, 0] \<and>
   earliest_max [- 1, - 1, 0, - 2, - 1, - 1, 0 :: int] 3 0 \<and>
   mi_highestPoints (an_managerInfo (the (analysis_of
     (analyze_manager (seven_weeks [- 1, - 1, 0, - 2, - 1, - 1, 0]) ''1'')))) = 0 \<and>
   mi_highestPointsGW (an_managerInfo (the (analysis_of
     (analyze_manager (seven_weeks [- 1, - 1, 0, - 2, - 1, - 1, 0]) ''1'')))) = 0 \<and>
   mi_highestPointsGW (an_managerInfo (the (analysis_of
     (analyze_manager (seven_weeks [- 1, - 1, 0, - 2, - 1, - 1, 0]) ''1'')))) \<noteq> 3 \<and>
   earliest_min [- 1, - 1, 0, - 2, - 1, - 1, 0 :: int] 4 (- 2) \<and>
   mi_lowestPoints (an_managerInfo (the (analysis_of
     (analyze_manager (seven_weeks [- 1, - 1, 0, - 2, - 1, - 1, 0]) ''1'')))) = Num (- 2) \<and>
   mi_lowestPointsGW (an_managerInfo (the (analysis_of
     (analyze_manager (seven_weeks [- 1, - 1, 0, - 2, - 1, - 1, 0]) ''1'')))) = 4"
  by (simp add: model_defs demo_defs seven_weeks_def points_history_def replicate_numeral_Cons
        earliest_max_def earliest_min_def)

text \<open>
  Claim C10, as amended. If the manager's history has no record for a processed gameweek
  \<open>gw\<close>, or the record has no \<open>overall_rank\<close>, then \<open>weeklyRanks[gw - 1]\<close> is \<open>0\<close>, the
  reported \<open>highestRank\<close> is the string \<open>0\<close>, and \<open>highestRankGW\<close> is the first gameweek
  whose recorded rank is \<open>0\<close>: it is at most \<open>gw\<close>, and it is \<open>gw\<close> when no earlier
  gameweek has rank \<open>0\<close>.
\<close>

theorem missing_rank_is_best_rank:
  assumes response: "analysis_of (analyze_manager w managerId) = Some a"
      and history: "get_entry_history w managerId = Some historyData"
      and gw: "1 \<le> gw \<and> gw \<le> mi_currentGameweek (an_managerInfo a)"
      and missing: "season_record_of historyData gw = None
                    \<or> (\<exists>h. season_record_of historyData gw = Some h \<and> overall_rank h = None)"
  shows "an_weeklyRanks a ! (gw - 1) = 0 \<and>
         mi_highestRank (an_managerInfo a) = ''0'' \<and>
         earliest_min (an_weeklyRanks a) (mi_highestRankGW (an_managerInfo a)) 0 \<and>
         mi_highestRankGW (an_managerInfo a) \<le> gw \<and>
         (list_all (\<lambda>rank. rank \<noteq> 0) (take (gw - 1) (an_weeklyRanks a))
            \<longrightarrow> mi_highestRankGW (an_managerInfo a) = gw)"
proof -
  from response obtain r where run: "accumulate w managerId = Inr r" and a: "a = report r"
    by (auto simp add: analyze_manager_report)
  let ?st = "acc_state r" and ?G = "acc_currentGameweek r" and ?hist = "acc_historyData r"
  have hist: "historyData = ?hist" using accumulate_inputs(1) [OF run] history by simp
  have G: "mi_currentGameweek (an_managerInfo a) = ?G"
    using accumulate_inputs(2) [OF run] a by simp
  have len: "length (weeklyRanks ?st) = ?G"
    and ranks: "weeklyRanks ?st = map (gwRank_of ?hist) [1..<Suc ?G]"
    and tm: "tracks_min (weeklyRanks ?st) (highestRank ?st) (highestRankGW ?st)"
    using accumulate_final (1,2,5) [OF run] by blast+
  have gw1: "1 \<le> gw" and gwG: "gw \<le> ?G" using gw G by simp_all
  have idx: "gw - 1 < ?G" using gw1 gwG by simp
  have "weeklyRanks ?st ! (gw - 1) = gwRank_of ?hist ([1..<Suc ?G] ! (gw - 1))"
    using idx by (subst ranks) (simp del: upt_Suc)
  also have "[1..<Suc ?G] ! (gw - 1) = gw" using gw1 idx by (simp del: upt_Suc)
  finally have zero: "weeklyRanks ?st ! (gw - 1) = 0"
    using gwRank_of_missing [OF missing] hist by simp
  have ne: "weeklyRanks ?st \<noteq> []" using len idx by auto
  then obtain m where m: "highestRank ?st = Num m"
    and em: "earliest_min (weeklyRanks ?st) (highestRankGW ?st) m"
    using tm by (cases "highestRank ?st") (simp_all add: tracks_min_def)
  have "m \<le> weeklyRanks ?st ! (gw - 1)"
    using em idx len by (simp add: earliest_min_def list_all_length)
  then have m0: "m = 0" using zero by simp
  have before: "\<forall>i < highestRankGW ?st - 1. 0 < weeklyRanks ?st ! i"
    using em m0 by (auto simp add: earliest_min_def list_all_length)
  have le: "highestRankGW ?st \<le> gw"
  proof (rule ccontr)
    assume "\<not> highestRankGW ?st \<le> gw"
    then have "gw - 1 < highestRankGW ?st - 1" using gw1 by simp
    then show False using before zero by auto
  qed
  have at: "weeklyRanks ?st ! (highestRankGW ?st - 1) = 0" and pos: "1 \<le> highestRankGW ?st"
    using em m0 by (simp_all add: earliest_min_def)
  have eq: "highestRankGW ?st = gw"
    if "list_all (\<lambda>rank. rank \<noteq> 0) (take (gw - 1) (weeklyRanks ?st))"
  proof (rule ccontr)
    assume "highestRankGW ?st \<noteq> gw"
    then have "highestRankGW ?st - 1 < gw - 1" using le pos by simp
    then have "weeklyRanks ?st ! (highestRankGW ?st - 1) \<noteq> 0"
      using that idx len by (simp add: list_all_length)
    then show False using at by simp
  qed
  show ?thesis
    using zero m m0 em le eq
    by (simp add: a report_def assemble_def toLocaleString_0)
qed

theorem missing_rank_is_best_rank_witness:
  "an_weeklyRanks (the (analysis_of (analyze_manager late_history ''1''))) = [5000, 0] \<and>
   mi_highestRank (an_managerInfo (the (analysis_of (analyze_manager late_history ''1'')))) = ''0'' \<and>
   mi_highestRankGW (an_managerInfo (the (analysis_of (analyze_manager late_history ''1'')))) = 2"
proof -
  have response: "analysis_of (analyze_manager late_history ''1'')
               = Some (the (analysis_of (analyze_manager late_history ''1'')))"
    by (simp add: model_defs demo_defs late_history_def)
  have history: "get_entry_history late_history ''1''
                   = Some \<lparr>current = [\<lparr>h_event = 1, overall_rank = Some 5000\<rparr>], chips = [], past = []\<rparr>"
    by (simp add: demo_defs late_history_def)
  have gw: "1 \<le> (2::nat) \<and>
            2 \<le> mi_currentGameweek (an_managerInfo (the (analysis_of (analyze_manager late_history ''1''))))"
    by (simp add: model_defs demo_defs late_history_def)
  have missing: "season_record_of
                   \<lparr>current = [\<lparr>h_event = 1, overall_rank = Some 5000\<rparr>], chips = [], past = []\<rparr> 2 = None
     \<or> (\<exists>h. season_record_of
                \<lparr>current = [\<lparr>h_event = 1, overall_rank = Some 5000\<rparr>], chips = [], past = []\<rparr> 2 = Some h
            \<and> overall_rank h = None)"
    by (simp add: season_record_of_def)
  have ranks: "an_weeklyRanks (the (analysis_of (analyze_manager late_history ''1''))) = [5000, 0]"
    by (simp add: model_defs demo_defs late_history_def replicate_numeral_Cons)
  show ?thesis
    using missing_rank_is_best_rank [OF response history gw missing] ranks by simp
qed

text \<open>
  Claim C10, as stated, fails for the later of two gameweeks without a record: with no
  record for gameweeks 1 and 2 the report has \<open>highestRankGW = 1\<close>, not 2.
\<close>

theorem missing_rank_week_counterexample:
  "season_record_of (the (get_entry_history no_history ''1'')) 2 = None \<and>
   an_weeklyRanks (the (analysis_of (analyze_manager no_history ''1''))) = [0, 0] \<and>
   mi_highestRank (an_managerInfo (the (analysis_of (analyze_manager no_history ''1'')))) = ''0'' \<and>
   mi_highestRankGW (an_managerInfo (the (analysis_of (analyze_manager no_history ''1'')))) = 1 \<and>
   mi_highestRankGW (an_managerInfo (the (analysis_of (analyze_manager no_history ''1'')))) \<noteq> 2"
  by (simp add: model_defs demo_defs no_history_def replicate_numeral_Cons)

lemma object_values_array_indices:
  assumes "list_all (\<lambda>kv. is_array_index (fst kv)) obj"
  shows "object_values obj = map snd (sort_key fst obj)"
proof -
  have "filter (\<lambda>kv. is_array_index (fst kv)) obj = obj"
    using assms by (simp add: list_all_iff)
  moreover have "filter (\<lambda>kv. \<not> is_array_index (fst kv)) obj = []"
    using assms by (simp add: list_all_iff)
  ultimately show ?thesis by (simp add: object_values_def)
qed

lemma sort_desc_descending:
  "sorted_wrt (\<lambda>a b. key b \<le> key a) (sort_desc key xs)"
proof -
  have "sorted (map (\<lambda>x. - key x) (sort_key (\<lambda>x. - key x) xs))"
    by (rule sorted_sort_key)
  then show ?thesis by (simp add: sort_desc_def sorted_map)
qed

lemma sort_desc_stable:
  "filter (\<lambda>x. key x = v) (sort_desc key xs) = filter (\<lambda>x. key x = v) xs"
proof -
  have "filter (\<lambda>x. - key x = - v) (sort_key (\<lambda>x. - key x) xs) = filter (\<lambda>x. - key x = - v) xs"
    by (rule sort_key_stable)
  then show ?thesis by (simp add: sort_desc_def)
qed

lemma ensure_stat_distinct:
  assumes "ensure_stat pd player pid stats = Some stats'" and "distinct (map fst stats)"
  shows "distinct (map fst stats')"
  using assms
  by (auto simp add: ensure_stat_def map_of_eq_None_iff split: if_splits)

lemma process_pick_distinct:
  assumes "process_pick w pd gw bb tc pk (g, st) = Inr (g', st')"
      and "distinct (map fst (playerStats st))"
  shows "distinct (map fst (playerStats st'))"
  using assms(1)
proof (cases rule: process_pick_cases)
  case skip
  then show ?thesis using assms(2) by simp
next
  case (hit player summ stats stat)
  have "distinct (map fst stats)" using ensure_stat_distinct [OF hit(3) assms(2)] .
  then show ?thesis unfolding hit(7)
    by (simp add: pick_effect_def distinct_map_entry)
qed

lemma process_gameweek_distinct:
  assumes step: "process_gameweek w m pd hist gw st = Inr st'"
      and d: "distinct (map fst (playerStats st))"
  shows "distinct (map fst (playerStats st'))"
proof -
  from step obtain mpd g st2 where
    "get_picks w m gw = Some mpd" and
    picks: "process_picks w pd gw (active_chip mpd = Some ''bboost'') (active_chip mpd = Some ''3xc'')
       (picks mpd) (0, st\<lparr>calls := calls st @ [GetPicks m gw]\<rparr>) = Inr (g, st2)"
    and st': "st' = track_extrema gw g (gwRank_of hist gw)
             (st2\<lparr> weeklyPoints := (weeklyPoints st2)[gw - 1 := g],
                   weeklyRanks := (weeklyRanks st2)[gw - 1 := gwRank_of hist gw] \<rparr>)"
    by (rule process_gameweek_Inr)
  let ?P = "\<lambda>a. distinct (map fst (playerStats (snd a)))"
  have "?P (g, st2)"
  proof (rule process_picks_preserves [OF picks, where P = ?P])
    show "?P (0, st\<lparr>calls := calls st @ [GetPicks m gw]\<rparr>)" using d by simp
  next
    fix pk a a'
    assume "?P a" and "process_pick w pd gw (active_chip mpd = Some ''bboost'')
                         (active_chip mpd = Some ''3xc'') pk a = Inr a'"
    then show "?P a'"
      using process_pick_distinct [of w pd gw _ _ pk "fst a" "snd a" "fst a'" "snd a'"] by simp
  qed
  then show ?thesis by (simp add: st')
qed

lemma accumulate_distinct:
  assumes "accumulate w managerId = Inr r"
  shows "distinct (map fst (playerStats (acc_state r)))"
proof -
  from assms obtain pd issued where
    loop: "gameweek_loop w managerId pd (acc_historyData r) (acc_currentGameweek r) 1
       (init_state (acc_currentGameweek r) issued) = Inr (acc_state r)"
    by (rule accumulate_Inr)
  have init: "distinct (map fst (playerStats (init_state (acc_currentGameweek r) issued)))"
    by (simp add: init_state_def)
  from gameweek_loop_invariant [OF loop,
         where I = "\<lambda>gw st. distinct (map fst (playerStats st))", OF init]
  show ?thesis using process_gameweek_distinct by blast
qed

text \<open>
  Claim C9, as amended. The report's \<open>playerStats\<close> holds exactly the accumulated stats,
  in descending order of \<open>totalPointsActive\<close>; stats with equal \<open>totalPointsActive\<close> keep
  the order in which \<^verbatim>\<open>Object.values\<close> lists them, and for player ids that are array
  indices (below \<open>2^32 - 1\<close>) that is ascending player id, not the order of first
  appearance.
\<close>

theorem playerStats_sorted_ties_by_id:
  assumes run: "accumulate w managerId = Inr r"
  shows "mset (an_playerStats (report r)) = mset (map snd (playerStats (acc_state r))) \<and>
         sorted_wrt (\<lambda>a b. totalPointsActive b \<le> totalPointsActive a) (an_playerStats (report r)) \<and>
         (\<forall>v. filter (\<lambda>s. totalPointsActive s = v) (an_playerStats (report r))
                = filter (\<lambda>s. totalPointsActive s = v) (object_values (playerStats (acc_state r)))) \<and>
         (list_all (\<lambda>kv. is_array_index (fst kv)) (playerStats (acc_state r)) \<longrightarrow>
            object_values (playerStats (acc_state r))
              = map snd (sort_key fst (playerStats (acc_state r)))) \<and>
         sorted (map fst (sort_key fst (playerStats (acc_state r)))) \<and>
         distinct (map fst (sort_key fst (playerStats (acc_state r))))"
proof -
  let ?stats = "playerStats (acc_state r)"
  have rep: "an_playerStats (report r) = sort_desc totalPointsActive (object_values ?stats)"
    by (simp add: report_def assemble_def)
  have "mset (an_playerStats (report r)) = mset (map snd ?stats)"
    by (simp add: rep sort_desc_def mset_object_values)
  moreover have "sorted_wrt (\<lambda>a b. totalPointsActive b \<le> totalPointsActive a)
                   (an_playerStats (report r))"
    unfolding rep by (rule sort_desc_descending)
  moreover have "filter (\<lambda>s. totalPointsActive s = v) (an_playerStats (report r))
                = filter (\<lambda>s. totalPointsActive s = v) (object_values ?stats)" for v
    unfolding rep by (rule sort_desc_stable)
  moreover have "object_values ?stats = map snd (sort_key fst ?stats)"
    if "list_all (\<lambda>kv. is_array_index (fst kv)) ?stats"
    using that by (rule object_values_array_indices)
  moreover have "sorted (map fst (sort_key fst ?stats))"
    by (rule sorted_sort_key)
  moreover have "distinct (map fst (sort_key fst ?stats))"
    using accumulate_distinct [OF run] by (simp add: distinct_map)
  ultimately show ?thesis by blast
qed

theorem playerStats_sorted_ties_by_id_witness:
  "map name (an_playerStats (report (projr (accumulate tie_week ''1'')))) = [''Saka'', ''Rice''] \<and>
   map name (object_values (playerStats (acc_state (projr (accumulate tie_week ''1'')))))
     = [''Saka'', ''Rice''] \<and>
   map fst (sort_key fst (playerStats (acc_state (projr (accumulate tie_week ''1''))))) = [3, 5]"
proof -
  have run: "accumulate tie_week ''1'' = Inr (projr (accumulate tie_week ''1''))"
    by (simp add: model_defs demo_defs tie_week_def)
  have ov: "map name (object_values (playerStats (acc_state (projr (accumulate tie_week ''1'')))))
     = [''Saka'', ''Rice'']"
    by (simp add: model_defs demo_defs tie_week_def)
  have tpa: "map totalPointsActive (object_values (playerStats (acc_state (projr (accumulate tie_week ''1'')))))
     = [2, 2]"
    by (simp add: model_defs demo_defs tie_week_def)
  have keys: "map fst (sort_key fst (playerStats (acc_state (projr (accumulate tie_week ''1''))))) = [3, 5]"
    by (simp add: model_defs demo_defs tie_week_def)
  have rep: "map name (an_playerStats (report (projr (accumulate tie_week ''1''))))
               = [''Saka'', ''Rice'']"
    by (simp add: model_defs demo_defs tie_week_def)
  show ?thesis
    using playerStats_sorted_ties_by_id [OF run] rep ov keys by simp
qed


text \<open>
  Claim C9, as stated, fails: player 5 is picked (and stored) before player 3, both end
  with \<open>totalPointsActive = 2\<close>, and the report lists player 3 (Saka) before player 5
  (Rice).
\<close>

theorem ties_not_in_insertion_order_counterexample:
  "map fst (playerStats (acc_state (projr (accumulate tie_week ''1'')))) = [5, 3] \<and>
   map name (map snd (playerStats (acc_state (projr (accumulate tie_week ''1'')))))
     = [''Rice'', ''Saka''] \<and>
   map totalPointsActive (an_playerStats (the (analysis_of (analyze_manager tie_week ''1''))))
     = [2, 2] \<and>
   map name (an_playerStats (the (analysis_of (analyze_manager tie_week ''1''))))
     = [''Saka'', ''Rice'']"
  by (simp add: model_defs demo_defs tie_week_def)

lemma contribution_le_raw:
  assumes "raw_covers_active bb pk p"
  shows "contribution bb tc pk p \<le> p"
  using assms
  by (auto simp add: raw_covers_active_def contribution_def activePoints_def split: if_splits)

lemma process_pick_raw_ge:
  assumes step: "process_pick w pd gw bb tc pk (g, st) = Inr (g', st')"
      and fair: "\<And>summ. pick_element pk = pid \<Longrightarrow> get_element_summary w pid = Some summ
                   \<Longrightarrow> raw_covers_active bb pk (pointsThisWeek (history summ) gw)"
      and inv: "counter totalPointsActive st pid \<le> counter playerPoints st pid"
  shows "counter totalPointsActive st' pid \<le> counter playerPoints st' pid"
  using step
proof (cases rule: process_pick_cases)
  case skip
  then show ?thesis using inv by simp
next
  case (hit player summ stats stat)
  note cs = ensure_stat_counters [OF hit(3) hit(4)]
  show ?thesis
  proof (cases "pick_element pk = pid")
    case False
    then show ?thesis using inv
      by (simp add: hit(7) counter_pick_effect [OF hit(3) hit(4)])
  next
    case True
    let ?p = "pointsThisWeek (history summ) gw"
    have le: "contribution bb tc pk ?p \<le> ?p"
      using fair [OF True] hit(2) True by (simp add: contribution_le_raw)
    have tpa: "counter totalPointsActive st' pid
                 = counter totalPointsActive st pid + contribution bb tc pk ?p"
      using True
      by (simp add: hit(7) counter_pick_effect [OF hit(3) hit(4)] pick_update_def credited_def
            contribution_def cs)
    have pp: "counter playerPoints st' pid = counter playerPoints st pid + ?p"
      using True
      by (simp add: hit(7) counter_pick_effect [OF hit(3) hit(4)] pick_update_def credited_def cs)
    show ?thesis using inv le by (simp add: tpa pp)
  qed
qed

lemma fair_weeksD:
  assumes "fair_weeks w m k pid" and "1 \<le> gw" and "gw \<le> k"
      and "get_picks w m gw = Some mpd" and "pk \<in> set (picks mpd)" and "pick_element pk = pid"
      and "get_element_summary w pid = Some summ"
  shows "raw_covers_active (active_chip mpd = Some ''bboost'') pk (pointsThisWeek (history summ) gw)"
proof -
  have "gw \<in> set [1..<Suc k]" using assms(2,3) by auto
  then show ?thesis
    using assms(1,4-7) unfolding fair_weeks_def list_all_iff by fastforce
qed

lemma process_gameweek_raw_ge:
  assumes step: "process_gameweek w m pd hist gw st = Inr st'"
      and fair: "fair_weeks w m k pid" and gw: "1 \<le> gw" "gw \<le> k"
      and inv: "counter totalPointsActive st pid \<le> counter playerPoints st pid"
  shows "counter totalPointsActive st' pid \<le> counter playerPoints st' pid"
proof -
  from step obtain mpd g st2 where
    mpd: "get_picks w m gw = Some mpd" and
    picks: "process_picks w pd gw (active_chip mpd = Some ''bboost'') (active_chip mpd = Some ''3xc'')
       (picks mpd) (0, st\<lparr>calls := calls st @ [GetPicks m gw]\<rparr>) = Inr (g, st2)"
    and st': "st' = track_extrema gw g (gwRank_of hist gw)
             (st2\<lparr> weeklyPoints := (weeklyPoints st2)[gw - 1 := g],
                   weeklyRanks := (weeklyRanks st2)[gw - 1 := gwRank_of hist gw] \<rparr>)"
    by (rule process_gameweek_Inr)
  let ?P = "\<lambda>a. counter totalPointsActive (snd a) pid \<le> counter playerPoints (snd a) pid"
  have "?P (g, st2)"
  proof (rule process_picks_preserves [OF picks, where P = ?P])
    show "?P (0, st\<lparr>calls := calls st @ [GetPicks m gw]\<rparr>)"
      using inv by (simp add: counter_def)
  next
    fix pk a a'
    assume pk: "pk \<in> set (picks mpd)" and "?P a"
      and "process_pick w pd gw (active_chip mpd = Some ''bboost'')
             (active_chip mpd = Some ''3xc'') pk a = Inr a'"
    then show "?P a'"
      using process_pick_raw_ge [of w pd gw "active_chip mpd = Some ''bboost''"
              "active_chip mpd = Some ''3xc''" pk "fst a" "snd a" "fst a'" "snd a'" pid]
            fair_weeksD [OF fair gw mpd pk]
      by simp
  qed
  then show ?thesis by (simp add: st' counter_def)
qed

text \<open>
  Claim C1, as amended. After any number \<open>k\<close> of processed gameweeks, a player's
  \<open>playerPoints\<close> is at least the player's \<open>totalPointsActive\<close>, provided that in those
  gameweeks the player was never an active captain with a positive score and never left
  on the bench with a negative score. (\<open>gameweek_loop\<close> with bound \<open>k\<close> is the state of the
  run after \<open>k\<close> gameweeks, see \<open>gameweek_loop_prefix\<close>.)
\<close>

theorem raw_points_cover_active_points:
  assumes loop: "gameweek_loop w managerId playerData historyData k 1 (init_state G issued) = Inr st"
      and bound: "k \<le> G"
      and fair: "fair_weeks w managerId k playerId"
      and stat: "map_of (playerStats st) playerId = Some s"
  shows "totalPointsActive s \<le> playerPoints s"
proof -
  let ?I = "\<lambda>(gw::nat) st. 1 \<le> gw \<and> counter totalPointsActive st playerId \<le> counter playerPoints st playerId"
  have init: "?I 1 (init_state G issued)"
    by (simp add: init_state_def counter_def)
  have step: "?I (Suc gw) st'"
    if "gw \<le> k" "?I gw st" "process_gameweek w managerId playerData historyData gw st = Inr st'"
    for gw st st'
    using process_gameweek_raw_ge [OF that(3) fair _ that(1)] that(2) by simp
  from gameweek_loop_invariant [OF loop, where I = ?I, OF init]
  have "?I (max 1 (Suc k)) st" using step by blast
  then show ?thesis using stat by (simp add: counter_def)
qed

theorem raw_points_cover_active_points_witness:
  "fair_weeks two_weeks ''1'' 2 5 \<and>
   totalPointsActive (the (map_of (playerStats (projr two_weeks_state)) 5)) = 0 \<and>
   playerPoints (the (map_of (playerStats (projr two_weeks_state)) 5)) = 2 \<and>
   totalPointsActive (the (map_of (playerStats (projr two_weeks_state)) 5))
     \<le> playerPoints (the (map_of (playerStats (projr two_weeks_state)) 5))"
proof -
  have loop: "gameweek_loop two_weeks ''1'' (demo_bootstrap 2) \<lparr>current = [], chips = [], past = []\<rparr>
                2 1 (init_state 2 []) = Inr (projr two_weeks_state)"
    by (simp add: two_weeks_state_def model_defs demo_defs)
  have bound: "(2::nat) \<le> 2" by simp
  have fair: "fair_weeks two_weeks ''1'' 2 5"
    by (simp add: fair_weeks_def raw_covers_active_def active_pick_def model_defs demo_defs
          list_all_iff)
  have stat: "map_of (playerStats (projr two_weeks_state)) 5
                = Some (the (map_of (playerStats (projr two_weeks_state)) 5))"
    by (simp add: two_weeks_state_def model_defs demo_defs)
  have "totalPointsActive (the (map_of (playerStats (projr two_weeks_state)) 5)) = 0"
    by (simp add: two_weeks_state_def model_defs demo_defs)
  moreover have "playerPoints (the (map_of (playerStats (projr two_weeks_state)) 5)) = 2"
    by (simp add: two_weeks_state_def model_defs demo_defs)
  ultimately show ?thesis
    using raw_points_cover_active_points [OF loop bound fair stat] fair by simp
qed

text \<open>
  Claim C1, as stated, fails for a captain: one gameweek, one pick, captain with 4 points
  and no chip. The player's \<open>playerPoints\<close> is 4 and \<open>totalPointsActive\<close> is 8.
\<close>

theorem captain_raw_below_active_counterexample:
  "map playerPoints (an_playerStats (the (analysis_of (analyze_manager captain_week ''1'')))) = [4] \<and>
   map totalPointsActive (an_playerStats (the (analysis_of (analyze_manager captain_week ''1''))))
     = [8] \<and>
   \<not> list_all raw_at_least_active
        (an_playerStats (the (analysis_of (analyze_manager captain_week ''1''))))"
  by (simp add: raw_at_least_active_def model_defs demo_defs captain_week_def)

section \<open>Claims about the request check and the bootstrap cache\<close>

lemma credit_active_Inl:
  "credit_active in11 cap tc pid p (g, st) = Inl (Thrown issued) \<Longrightarrow> issued = calls st"
  by (auto simp add: credit_active_def Let_def split: option.splits)

lemma process_pick_Inl:
  "process_pick w pd gw bb tc pk (g, st) = Inl (Thrown issued)
     \<Longrightarrow> issued = calls st @ [GetElementSummary (pick_element pk)]"
  by (auto simp add: process_pick_def Let_def split: option.splits if_splits
        dest!: credit_active_Inl)

lemma process_pick_issued:
  "\<exists>more. issued_in_week (process_pick w pd gw bb tc pk (g, st)) = calls st @ more"
proof (cases "process_pick w pd gw bb tc pk (g, st)")
  case (Inr acc)
  then show ?thesis
    by (cases acc) (auto simp add: issued_in_week_def pick_effect_def elim!: process_pick_cases)
next
  case (Inl e)
  then show ?thesis
    by (cases e) (auto simp add: issued_in_week_def dest!: process_pick_Inl)
qed

lemma process_picks_issued:
  "\<exists>more. issued_in_week (process_picks w pd gw bb tc pks (g, st)) = calls st @ more"
proof (induction pks arbitrary: g st)
  case Nil
  then show ?case by (simp add: issued_in_week_def)
next
  case (Cons pk pks)
  show ?case
  proof (cases "process_pick w pd gw bb tc pk (g, st)")
    case (Inl e)
    then show ?thesis using process_pick_issued [of w pd gw bb tc pk g st]
      by (simp add: issued_in_week_def)
  next
    case (Inr acc)
    obtain g1 st1 where acc: "acc = (g1, st1)" by (cases acc)
    from process_pick_issued [of w pd gw bb tc pk g st] Inr acc
    obtain more1 where m1: "calls st1 = calls st @ more1"
      by (auto simp add: issued_in_week_def)
    from Cons.IH [of g1 st1] obtain more2 where
      "issued_in_week (process_picks w pd gw bb tc pks (g1, st1)) = calls st1 @ more2"
      by blast
    then show ?thesis using Inr acc m1 by simp
  qed
qed

lemma process_gameweek_issued:
  "\<exists>more. issued_by (process_gameweek w m pd hist gw st) = calls st @ more"
proof (cases "get_picks w m gw")
  case None
  then show ?thesis by (simp add: process_gameweek_def issued_by_def)
next
  case (Some mpd)
  from process_picks_issued [of w pd gw "active_chip mpd = Some ''bboost''"
         "active_chip mpd = Some ''3xc''" "picks mpd" 0 "st\<lparr>calls := calls st @ [GetPicks m gw]\<rparr>"]
  obtain more where
    "issued_in_week (process_picks w pd gw (active_chip mpd = Some ''bboost'')
        (active_chip mpd = Some ''3xc'') (picks mpd) (0, st\<lparr>calls := calls st @ [GetPicks m gw]\<rparr>))
       = calls st @ [GetPicks m gw] @ more"
    by auto
  then show ?thesis using Some
    by (auto simp add: process_gameweek_def issued_by_def issued_in_week_def Let_def
          split: sum.splits error.splits)
qed

lemma gameweek_loop_issued:
  "\<exists>more. issued_by (gameweek_loop w m pd hist G gw st) = calls st @ more"
proof (induction w m pd hist G gw st rule: gameweek_loop.induct)
  case (1 w m pd hist G gw st)
  show ?case
  proof (cases "gw \<le> G")
    case False
    then show ?thesis by (simp add: gameweek_loop.simps [of w m pd hist G gw] issued_by_def)
  next
    case True
    show ?thesis
    proof (cases "process_gameweek w m pd hist gw st")
      case (Inl e)
      then show ?thesis using process_gameweek_issued [of w m pd hist gw st] True
        by (simp add: gameweek_loop.simps [of w m pd hist G gw] issued_by_def)
    next
      case (Inr st1)
      from process_gameweek_issued [of w m pd hist gw st] Inr
      obtain more1 where "calls st1 = calls st @ more1" by (auto simp add: issued_by_def)
      moreover from "1.IH" [OF True Inr] obtain more2 where
        "issued_by (gameweek_loop w m pd hist G (Suc gw) st1) = calls st1 @ more2" by blast
      ultimately show ?thesis using True Inr
        by (simp add: gameweek_loop.simps [of w m pd hist G gw])
    qed
  qed
qed

lemma accumulate_Inl_issued:
  assumes "accumulate w managerId = Inl (Thrown issued)"
  shows "issued = [GetBootstrapStatic, GetEntry managerId, GetEntryHistory managerId, GetStandings]
         \<or> (\<exists>pd hist G. gameweek_loop w managerId pd hist G 1
                (init_state G [GetBootstrapStatic, GetEntry managerId,
                               GetEntryHistory managerId, GetStandings]) = Inl (Thrown issued))"
  using assms
  by (simp add: accumulate_def Let_def split: option.splits list.splits sum.splits) blast

lemma accumulate_Inr_issued:
  assumes "accumulate w managerId = Inr r"
  obtains pd where "gameweek_loop w managerId pd (acc_historyData r) (acc_currentGameweek r) 1
           (init_state (acc_currentGameweek r)
              [GetBootstrapStatic, GetEntry managerId, GetEntryHistory managerId, GetStandings])
           = Inr (acc_state r)"
  using assms
  by (auto simp add: accumulate_def Let_def split: option.splits list.splits sum.splits)

text \<open>
  Claim C7. A \<open>managerId\<close> that is not one or more digits gets HTTP 400 with the body
  \<^verbatim>\<open>{error: "Invalid manager ID format"}\<close>, and no upstream request is issued.
\<close>

theorem invalid_manager_id_rejected:
  assumes "\<not> valid_managerId managerId"
  shows "analyze_manager w managerId
           = (Response 400 (ErrorBody ''Invalid manager ID format''), [])"
  using assms by (simp add: analyze_manager_def)

theorem invalid_manager_id_rejected_witness:
  "\<not> valid_managerId ''abc'' \<and>
   analyze_manager two_weeks ''abc'' = (Response 400 (ErrorBody ''Invalid manager ID format''), [])"
proof -
  have invalid: "\<not> valid_managerId ''abc''"
    by (simp add: valid_managerId_def)
  show ?thesis
    using invalid_manager_id_rejected [OF invalid, of two_weeks] invalid by simp
qed

text \<open>
  A well-formed \<open>managerId\<close>, in contrast, always has the four requests of
  \<^verbatim>\<open>Promise.all\<close> issued, whatever happens afterwards.
\<close>

lemma valid_manager_id_issues_requests:
  assumes "valid_managerId managerId"
  shows "\<exists>more. snd (analyze_manager w managerId)
           = [GetBootstrapStatic, GetEntry managerId, GetEntryHistory managerId, GetStandings] @ more"
proof -
  let ?first = "[GetBootstrapStatic, GetEntry managerId, GetEntryHistory managerId, GetStandings]"
  have loop: "\<exists>more. issued_by (gameweek_loop w managerId pd hist G 1 (init_state G ?first))
                = ?first @ more" for pd hist G
    using gameweek_loop_issued [of w managerId pd hist G 1 "init_state G ?first"]
    by (simp add: init_state_def)
  show ?thesis
  proof (cases "accumulate w managerId")
    case (Inl e)
    obtain issued where e: "e = Thrown issued" by (cases e)
    have "\<exists>more. issued = ?first @ more"
    proof -
      from accumulate_Inl_issued [OF Inl [unfolded e]]
      consider "issued = ?first"
        | pd hist G where "gameweek_loop w managerId pd hist G 1 (init_state G ?first)
                             = Inl (Thrown issued)"
        by blast
      then show ?thesis
      proof cases
        case 1
        then show ?thesis by simp
      next
        case 2
        then show ?thesis using loop [of pd hist G] by (simp add: issued_by_def)
      qed
    qed
    then show ?thesis using assms Inl e
      by (simp add: analyze_manager_def run_analysis_def)
  next
    case (Inr r)
    from Inr obtain pd where
      "gameweek_loop w managerId pd (acc_historyData r) (acc_currentGameweek r) 1
         (init_state (acc_currentGameweek r) ?first) = Inr (acc_state r)"
      by (rule accumulate_Inr_issued)
    then have "\<exists>more. calls (acc_state r) = ?first @ more"
      using loop [of pd "acc_historyData r" "acc_currentGameweek r"] by (simp add: issued_by_def)
    then show ?thesis using assms Inr
      by (simp add: analyze_manager_def run_analysis_def)
  qed
qed

lemma getBootstrapData_hit:
  assumes "bootstrapCache c = Some payload" and "bootstrapCacheTime c = Some t" and "t \<noteq> 0"
      and "now - t < 3600000"
  shows "getBootstrapData now reply c = (Some payload, c, 0)"
  using assms by (simp add: getBootstrapData_def cache_hit_def CACHE_DURATION_def)

lemma getBootstrapData_calls_hits:
  assumes "bootstrapCache c = Some payload" and "bootstrapCacheTime c = Some t" and "t \<noteq> 0"
      and "list_all (\<lambda>call. fst call - t < 3600000) later"
  shows "getBootstrapData_calls later c = (replicate (length later) (Some payload), c, 0)"
  using assms(4)
proof (induction later)
  case Nil
  then show ?case by simp
next
  case (Cons call later)
  then have "getBootstrapData (fst call) (snd call) c = (Some payload, c, 0)"
    using getBootstrapData_hit [OF assms(1-3)] by simp
  then show ?case using Cons by simp
qed

lemma getBootstrapData_fetches: "getBootstrapData now reply c = (res, c', n) \<Longrightarrow> n \<le> 1"
  by (auto simp add: getBootstrapData_def split: if_splits option.splits)

text \<open>
  Claim C8. Calls are taken one after the other. Once a call has left a payload in the
  cache, stamped with a clock reading \<open>t1\<close> (not \<open>0\<close>, as any reading after 1 January
  1970 is), every later call whose clock reading is less than one hour (3600000 ms) past
  \<open>t1\<close> returns that payload, leaves the cache as it is and issues no request, whatever
  the provider would answer. So the whole sequence issues what the first call issued,
  which is at most one request.
\<close>

theorem bootstrap_cache_window:
  assumes first: "getBootstrapData t0 reply0 c0 = (res0, c1, n0)"
      and cached: "bootstrapCache c1 = Some payload"
      and stamp: "bootstrapCacheTime c1 = Some t1"
      and clock: "t1 \<noteq> 0"
      and window: "list_all (\<lambda>call. fst call - t1 < 3600000) later"
  shows "list_all (\<lambda>call. getBootstrapData (fst call) (snd call) c1 = (Some payload, c1, 0)) later \<and>
         getBootstrapData_calls ((t0, reply0) # later) c0
           = (res0 # replicate (length later) (Some payload), c1, n0) \<and>
         n0 \<le> 1"
proof -
  have "list_all (\<lambda>call. getBootstrapData (fst call) (snd call) c1 = (Some payload, c1, 0)) later"
    using window getBootstrapData_hit [OF cached stamp clock] by (simp add: list_all_iff)
  moreover have "getBootstrapData_calls ((t0, reply0) # later) c0
           = (res0 # replicate (length later) (Some payload), c1, n0)"
    using first getBootstrapData_calls_hits [OF cached stamp clock window] by simp
  moreover have "n0 \<le> 1" using getBootstrapData_fetches [OF first] .
  ultimately show ?thesis by blast
qed

theorem bootstrap_cache_window_witness:
  "getBootstrapData_calls
     [(1000, Some (demo_bootstrap 2)), (2000, None), (3600999, Some (demo_bootstrap 1))]
     \<lparr>bootstrapCache = None, bootstrapCacheTime = None\<rparr>
   = ([Some (demo_bootstrap 2), Some (demo_bootstrap 2), Some (demo_bootstrap 2)],
      \<lparr>bootstrapCache = Some (demo_bootstrap 2), bootstrapCacheTime = Some 1000\<rparr>, 1)"
proof -
  have first: "getBootstrapData 1000 (Some (demo_bootstrap 2))
                 \<lparr>bootstrapCache = None, bootstrapCacheTime = None\<rparr>
               = (Some (demo_bootstrap 2),
                  \<lparr>bootstrapCache = Some (demo_bootstrap 2), bootstrapCacheTime = Some 1000\<rparr>, 1)"
    by (simp add: getBootstrapData_def cache_hit_def)
  have cached: "bootstrapCache \<lparr>bootstrapCache = Some (demo_bootstrap 2), bootstrapCacheTime = Some 1000\<rparr>
                  = Some (demo_bootstrap 2)"
    by simp
  have stamp: "bootstrapCacheTime \<lparr>bootstrapCache = Some (demo_bootstrap 2), bootstrapCacheTime = Some 1000\<rparr>
                 = Some 1000"
    by simp
  have clock: "(1000::int) \<noteq> 0" by simp
  have window: "list_all (\<lambda>call. fst call - 1000 < 3600000)
                  [(2000, None), (3600999::int, Some (demo_bootstrap 1))]"
    by simp
  show ?thesis
    using bootstrap_cache_window [OF first cached stamp clock window] by simp
qed

end
